theory Spec2Isabelle
  imports Main "HOL-Library.Word"
begin

unbundle bit_operations_syntax

section \<open>The generic HID driver (drivers/hid/hid-generic.c)\<close>

subsection \<open>Machine integers, pointers and constants\<close>

text \<open>
  \<^verbatim>\<open>unsigned\<close> and \<^verbatim>\<open>__s32\<close> are 32-bit words. Arithmetic wraps around; \<open>sint\<close>
  reads a word as the signed value, \<open>uint\<close> as the unsigned one. The comparison of an
  \<^verbatim>\<open>unsigned\<close> with the constant \<^verbatim>\<open>-1\<close> converts the constant, so it is a comparison
  with the word \<open>- 1\<close> (all bits set).
\<close>

type_synonym u32 = "32 word"
type_synonym s32 = "32 word"

text \<open>
  A pointer to an object that the driver never looks into (the input device, the
  driver structures on the bus, the device itself as a back-reference) is an address.
\<close>

type_synonym ptr = nat

definition NULL :: ptr where
  "NULL = 0"

text \<open>
  Modelled from the spec: the usage identifiers and the quirk bits are macros of
  include/linux/hid.h, not of hid-generic.c. The spec only names
  them (the wheel usage, the horizontal-wheel usage, the resolution-multiplier control,
  the flag of a device that requires a specialized driver). Their values are those of
  the HID usage tables: page in the upper half, usage in the lower half.
\<close>

definition HID_GD_WHEEL :: u32 where
  "HID_GD_WHEEL = 0x00010038"

definition HID_GD_RESOLUTION_MULTIPLIER :: u32 where
  "HID_GD_RESOLUTION_MULTIPLIER = 0x00010048"

definition HID_CP_AC_PAN :: u32 where
  "HID_CP_AC_PAN = 0x000c0238"

definition HID_QUIRK_INPUT_PER_APP :: u32 where
  "HID_QUIRK_INPUT_PER_APP = push_bit 11 1"

definition HID_QUIRK_HAVE_SPECIAL_DRIVER :: u32 where
  "HID_QUIRK_HAVE_SPECIAL_DRIVER = push_bit 19 1"

definition HID_MAX_IDS :: nat where
  "HID_MAX_IDS = 256"

definition ENOMEM :: int where
  "ENOMEM = 12"

datatype report_type = HID_INPUT_REPORT | HID_OUTPUT_REPORT | HID_FEATURE_REPORT

datatype request_type = HID_REQ_GET_REPORT | HID_REQ_SET_REPORT

datatype connect_mask = HID_CONNECT_DEFAULT

datatype event_type = EV_REL

datatype rel_code = REL_HWHEEL | REL_WHEEL | REL_WHEEL_HI_RES | REL_HWHEEL_HI_RES

subsection \<open>The parsed report descriptor\<close>

text \<open>
  \<^verbatim>\<open>struct hid_usage\<close>, \<^verbatim>\<open>struct hid_field\<close>, \<^verbatim>\<open>struct hid_report\<close>,
  \<^verbatim>\<open>struct hid_report_enum\<close> and \<^verbatim>\<open>struct hid_device\<close>, with the members that the
  driver reads or writes.

  The member \<^verbatim>\<open>usage\<close> of a field points to an array of \<^verbatim>\<open>maxusage\<close> usages. The
  parser registers no field without a usage, so the array has a first element: the
  record keeps that element, which is what \<^verbatim>\<open>field->usage->...\<close> reads, apart from the
  remaining ones. The member \<^verbatim>\<open>value\<close> is the array of the field's current values.
  The member \<^verbatim>\<open>field\<close> of a report is the array of its \<^verbatim>\<open>maxfield\<close> fields.
\<close>

record hid_usage =
  hid :: u32
  collection_index :: u32
  usage_index :: u32

record hid_field =
  usage :: hid_usage
  usage_rest :: "hid_usage list"
  logical_maximum :: s32
  physical_maximum :: s32
  value_f :: "s32 list"
  index_f :: u32

record hid_report =
  id_r :: u32
  field :: "hid_field list"

record hid_report_enum =
  report_list :: "hid_report list"

record hid_device =
  report_enum :: "report_type \<Rightarrow> hid_report_enum"
  quirks :: u32

definition maxfield :: "hid_report \<Rightarrow> nat" where
  "maxfield rep = length (field rep)"

definition usages :: "hid_field \<Rightarrow> hid_usage list" where
  "usages f = usage f # usage_rest f"

subsection \<open>The device context\<close>

text \<open>
  \<^verbatim>\<open>struct hid_generic_device\<close>. The two arrays of length two are pairs, read and
  written at index 0 or 1.
\<close>

type_synonym 'a array2 = "'a \<times> 'a"

definition nth2 :: "'a array2 \<Rightarrow> nat \<Rightarrow> 'a" where
  "nth2 a i = (if i = 0 then fst a else snd a)"

definition upd2 :: "'a array2 \<Rightarrow> nat \<Rightarrow> 'a \<Rightarrow> 'a array2" where
  "upd2 a i v = (if i = 0 then (v, snd a) else (fst a, v))"

record hid_generic_device =
  hdev :: ptr
  device :: ptr
  wheel_multiplier :: u32
  hwheel_multiplier :: u32
  report_id :: "u32 array2"
  field_index :: "u32 array2"

subsection \<open>Calls that leave the driver\<close>

text \<open>
  The driver acts on the outside by calling the HID core, the input core and the log.
  Each such call is recorded, with its arguments, at the end of a list. A report that is
  passed by pointer is named by its type and its id. What the report holds when
  \<^verbatim>\<open>hid_hw_request\<close> is called with it, which is what the transport then writes to
  the device, is kept in a list of its own, in the order of the requests.
\<close>

datatype call =
    Hid_err string
  | Dev_err string
  | Hid_parse
  | Hid_hw_start connect_mask
  | Hid_hw_request report_type u32 request_type
  | Input_report_rel ptr rel_code s32
  | Input_sync ptr
  | Input_set_capability ptr event_type rel_code

text \<open>
  The state that the callbacks of the driver work on: the device \<^verbatim>\<open>hdev\<close> points to,
  the device context that \<^verbatim>\<open>hid_get_drvdata(hdev)\<close> returns, the calls made so far,
  and the reports as the requests of the driver have passed them so far.
\<close>

record hid_state =
  the_hdev :: hid_device
  drvdata :: hid_generic_device
  calls :: "call list"
  sent :: "hid_report list"

subsection \<open>hid_generic_event\<close>

text \<open>
  The switch reads \<^verbatim>\<open>field->usage->hid\<close>: the identifier of the usage that the field
  points to, not the one of the parameter \<^verbatim>\<open>usage\<close>, which the function does not read.
  The product of the \<^verbatim>\<open>__s32\<close> value and the \<^verbatim>\<open>unsigned\<close> multiplier is taken in
  unsigned 32-bit arithmetic and passed on as an \<^verbatim>\<open>int\<close>. The function returns 1 after
  the switch.
\<close>

definition hid_generic_event ::
  "hid_state \<Rightarrow> hid_field \<Rightarrow> hid_usage \<Rightarrow> s32 \<Rightarrow> int \<times> hid_state" where
  "hid_generic_event s fld usg val =
     (let dev = drvdata s;
          dv = device dev;
          s' = (if hid (usage fld) = HID_GD_WHEEL then
                  s\<lparr>calls := calls s @
                      [Input_report_rel dv REL_WHEEL_HI_RES (val * wheel_multiplier dev),
                       Input_report_rel dv REL_WHEEL val,
                       Input_sync dv]\<rparr>
                else if hid (usage fld) = HID_CP_AC_PAN then
                  s\<lparr>calls := calls s @
                      [Input_report_rel dv REL_HWHEEL_HI_RES (val * hwheel_multiplier dev),
                       Input_report_rel dv REL_HWHEEL val,
                       Input_sync dv]\<rparr>
                else s)
      in (1, s'))"

text \<open>
  The usage table of the driver, \<^verbatim>\<open>hid_generic_grabbed_usages\<close>: the HID core calls the
  event callback of a driver only for the usages that its table lists. The end marker
  of the array is the end of the list.
\<close>

record hid_usage_id =
  usage_hid :: u32
  usage_type :: event_type
  usage_code :: rel_code

definition hid_generic_grabbed_usages :: "hid_usage_id list" where
  "hid_generic_grabbed_usages =
     [\<lparr>usage_hid = HID_GD_WHEEL, usage_type = EV_REL, usage_code = REL_WHEEL\<rparr>,
      \<lparr>usage_hid = HID_CP_AC_PAN, usage_type = EV_REL, usage_code = REL_HWHEEL\<rparr>]"



subsection \<open>hid_generic_match\<close>

text \<open>
  Modelled from the spec: \<^verbatim>\<open>bus_for_each_drv\<close> and \<^verbatim>\<open>hid_match_device\<close> belong to the
  driver core and the HID core, not to hid-generic.c. The spec speaks of the
  registered drivers and of the matching predicate of each. The registered drivers of
  the bus are a list of driver addresses; the iterator calls the function on each in
  turn and stops with the first result that is not zero. \<^verbatim>\<open>hid_match_device\<close> is a
  parameter: it returns the matching table entry of the driver, or \<open>NULL\<close>. The
  address of the generic driver itself, \<^verbatim>\<open>&hid_generic\<close>, is a parameter too. The
  callback \<^verbatim>\<open>__check_hid_generic\<close> is \<open>check_hid_generic\<close> here.
\<close>

fun bus_for_each_drv :: "ptr list \<Rightarrow> 'a \<Rightarrow> (ptr \<Rightarrow> 'a \<Rightarrow> int) \<Rightarrow> int" where
  "bus_for_each_drv [] data fn = 0"
| "bus_for_each_drv (drv # drvs) data fn =
     (let error = fn drv data in
      if error \<noteq> 0 then error else bus_for_each_drv drvs data fn)"

definition check_hid_generic ::
  "ptr \<Rightarrow> (hid_device \<Rightarrow> ptr \<Rightarrow> ptr) \<Rightarrow> ptr \<Rightarrow> hid_device \<Rightarrow> int" where
  "check_hid_generic hid_generic hid_match_device drv data =
     (if drv = hid_generic then 0
      else if hid_match_device data drv \<noteq> NULL then 1 else 0)"

definition hid_generic_match ::
  "ptr \<Rightarrow> (hid_device \<Rightarrow> ptr \<Rightarrow> ptr) \<Rightarrow> ptr list \<Rightarrow> hid_device \<Rightarrow> bool \<Rightarrow> bool" where
  "hid_generic_match hid_generic hid_match_device hid_bus_type dev ignore_special_driver =
     (if ignore_special_driver then True
      else if quirks dev AND HID_QUIRK_HAVE_SPECIAL_DRIVER \<noteq> 0 then False
      else if bus_for_each_drv hid_bus_type dev
                (check_hid_generic hid_generic hid_match_device) \<noteq> 0 then False
      else True)"

subsection \<open>usage_in_collection\<close>

text \<open>
  The inner loop over the fields of one report and the outer loop over the reports of
  the input report list. Both stop with \<open>True\<close> at the first match.
\<close>

fun usage_in_fields :: "hid_field list \<Rightarrow> u32 \<Rightarrow> u32 \<Rightarrow> bool" where
  "usage_in_fields [] usage_id collection = False"
| "usage_in_fields (fld # flds) usage_id collection =
     (if hid (usage fld) = usage_id \<and> collection_index (usage fld) = collection then True
      else usage_in_fields flds usage_id collection)"

fun usage_in_reports :: "hid_report list \<Rightarrow> u32 \<Rightarrow> u32 \<Rightarrow> bool" where
  "usage_in_reports [] usage_id collection = False"
| "usage_in_reports (rep # reps) usage_id collection =
     (if usage_in_fields (field rep) usage_id collection then True
      else usage_in_reports reps usage_id collection)"

definition usage_in_collection :: "hid_device \<Rightarrow> u32 \<Rightarrow> u32 \<Rightarrow> bool" where
  "usage_in_collection dev usage_id collection =
     usage_in_reports (report_list (report_enum dev HID_INPUT_REPORT)) usage_id collection"

text \<open>
  The scan as the specification words it: some usage of some field of some report of
  the input report list has the identifier and the collection index.
\<close>

definition spec_usage_in_collection :: "hid_device \<Rightarrow> u32 \<Rightarrow> u32 \<Rightarrow> bool" where
  "spec_usage_in_collection dev usage_id collection =
     list_ex (\<lambda>rep. list_ex (\<lambda>fld.
         list_ex (\<lambda>u. hid u = usage_id \<and> collection_index u = collection) (usages fld))
       (field rep))
     (report_list (report_enum dev HID_INPUT_REPORT))"

subsection \<open>handle_resolution_multiplier and hid_generic_fetch_resolution_multiplier\<close>

definition handle_resolution_multiplier ::
  "hid_state \<Rightarrow> hid_report \<Rightarrow> hid_field \<Rightarrow> hid_usage \<Rightarrow> hid_state" where
  "handle_resolution_multiplier s rep fld usg =
     (let dev = drvdata s;
          multiplier = physical_maximum fld;
          w = usage_in_collection (the_hdev s) HID_GD_WHEEL (collection_index usg);
          h = usage_in_collection (the_hdev s) HID_CP_AC_PAN (collection_index usg)
      in if \<not> w \<and> \<not> h then s
         else
           let dev1 = (if w then dev\<lparr>wheel_multiplier := multiplier\<rparr> else dev);
               dev2 = (if h then dev1\<lparr>hwheel_multiplier := multiplier\<rparr> else dev1)
           in if nth2 (report_id dev2) 0 = - 1 then
                s\<lparr>drvdata := dev2\<lparr>report_id := upd2 (report_id dev2) 0 (id_r rep),
                                    field_index := upd2 (field_index dev2) 0 (index_f fld)\<rparr>\<rparr>
              else if nth2 (report_id dev2) 1 = - 1 then
                s\<lparr>drvdata := dev2\<lparr>report_id := upd2 (report_id dev2) 1 (id_r rep),
                                    field_index := upd2 (field_index dev2) 1 (index_f fld)\<rparr>\<rparr>
              else
                s\<lparr>drvdata := dev2\<lparr>wheel_multiplier := 1, hwheel_multiplier := 1\<rparr>,
                  calls := calls s @ [Hid_err (''invalid Resolution Multipliers'' @ [CHR 0x0A])]\<rparr>)"

fun fetch_fields :: "hid_report \<Rightarrow> hid_field list \<Rightarrow> hid_state \<Rightarrow> hid_state" where
  "fetch_fields rep [] s = s"
| "fetch_fields rep (fld # flds) s =
     fetch_fields rep flds
       (if hid (usage fld) = HID_GD_RESOLUTION_MULTIPLIER
        then handle_resolution_multiplier s rep fld (usage fld) else s)"

fun fetch_reports :: "hid_report list \<Rightarrow> hid_state \<Rightarrow> hid_state" where
  "fetch_reports [] s = s"
| "fetch_reports (rep # reps) s = fetch_reports reps (fetch_fields rep (field rep) s)"

definition hid_generic_fetch_resolution_multiplier :: "hid_state \<Rightarrow> hid_state" where
  "hid_generic_fetch_resolution_multiplier s =
     fetch_reports (report_list (report_enum (the_hdev s) HID_FEATURE_REPORT)) s"

subsection \<open>hid_generic_set_resolution_multiplier\<close>

text \<open>
  Modelled from the spec: \<^verbatim>\<open>report_id_hash\<close> is a member of \<^verbatim>\<open>struct hid_report_enum\<close>,
  declared in include/linux/hid.h. Slot \<open>k\<close> of this array of \<open>HID_MAX_IDS\<close> pointers
  points to the report of the report list that is registered under the id \<open>k\<close>, or is
  \<open>NULL\<close>. The pointer is the position of the report in the report list, so that a write
  through it is a write to the report in the list.

  A read beyond an array, or through \<open>NULL\<close>, has no defined result: the functions that
  follow a slot of the device context return \<open>None\<close> there.
\<close>

fun report_index :: "hid_report list \<Rightarrow> u32 \<Rightarrow> nat option" where
  "report_index [] k = None"
| "report_index (rep # reps) k =
     (if id_r rep = k then Some 0 else map_option Suc (report_index reps k))"

definition report_id_hash :: "hid_report_enum \<Rightarrow> u32 \<Rightarrow> nat option" where
  "report_id_hash e k =
     (if unat k < HID_MAX_IDS then report_index (report_list e) k else None)"

text \<open>The body of the loop for slot \<open>i\<close>, after the test for the empty slot.\<close>

definition set_slot :: "nat \<Rightarrow> hid_state \<Rightarrow> hid_state option" where
  "set_slot i s =
     (let dev = drvdata s;
          report_enum_f = report_enum (the_hdev s) HID_FEATURE_REPORT
      in case report_id_hash report_enum_f (nth2 (report_id dev) i) of
           None \<Rightarrow> None
         | Some p \<Rightarrow>
             let rep = report_list report_enum_f ! p;
                 fi = unat (nth2 (field_index dev) i)
             in if maxfield rep \<le> fi then None
                else
                  let fld = field rep ! fi;
                      usg = usage fld;
                      ix = unat (usage_index usg)
                  in if length (value_f fld) \<le> ix then None
                     else
                       let fld' = fld\<lparr>value_f := (value_f fld)[ix := logical_maximum fld]\<rparr>;
                           rep' = rep\<lparr>field := (field rep)[fi := fld']\<rparr>;
                           report_enum_f' = report_enum_f
                             \<lparr>report_list := (report_list report_enum_f)[p := rep']\<rparr>
                       in Some (s\<lparr>the_hdev := (the_hdev s)
                                     \<lparr>report_enum := (report_enum (the_hdev s))
                                        (HID_FEATURE_REPORT := report_enum_f')\<rparr>,
                                   calls := calls s @
                                     [Hid_hw_request HID_FEATURE_REPORT (id_r rep)
                                        HID_REQ_SET_REPORT],
                                   sent := sent s @ [rep']\<rparr>))"

text \<open>The loop \<^verbatim>\<open>for (i = 0; i < 2; i++)\<close>, over the indices that are left.\<close>

fun set_loop :: "nat list \<Rightarrow> hid_state \<Rightarrow> hid_state option" where
  "set_loop [] s = Some s"
| "set_loop (i # is) s =
     (if nth2 (report_id (drvdata s)) i = - 1 then Some s
      else case set_slot i s of None \<Rightarrow> None | Some s' \<Rightarrow> set_loop is s')"

definition hid_generic_set_resolution_multiplier :: "hid_state \<Rightarrow> hid_state option" where
  "hid_generic_set_resolution_multiplier s =
     (if wheel_multiplier (drvdata s) = 1 \<and> hwheel_multiplier (drvdata s) = 1 then Some s
      else set_loop [0, 1] s)"

subsection \<open>hid_generic_probe, hid_generic_input_configured, hid_generic_reset_resume\<close>

text \<open>
  Modelled from the spec: \<^verbatim>\<open>devm_kzalloc\<close>, \<^verbatim>\<open>hid_parse\<close> and \<^verbatim>\<open>hid_hw_start\<close> are
  functions of the kernel outside hid-generic.c. Whether the allocation succeeds, and
  what the parser and the start of the device return, are parameters of the attach.
  The device that is passed in holds the reports as the parser leaves them. The parse
  and the start of the device are recorded as calls. The result is the return value,
  the device, the device context if one was allocated, and the calls made.
\<close>

text \<open>
  The device context as the attach fills it in after the zeroing allocation: the
  back-reference to the device, both multipliers 1, both slots empty.
\<close>

definition probe_context :: "ptr \<Rightarrow> hid_generic_device" where
  "probe_context hdev_p =
     \<lparr>hdev = hdev_p, device = NULL,
      wheel_multiplier = 1, hwheel_multiplier = 1,
      report_id = (- 1, - 1), field_index = (- 1, - 1)\<rparr>"

definition hid_generic_probe ::
  "hid_device \<Rightarrow> ptr \<Rightarrow> bool \<Rightarrow> int \<Rightarrow> int \<Rightarrow>
     (int \<times> hid_device \<times> hid_generic_device option \<times> call list) option" where
  "hid_generic_probe dev0 hdev_p alloc_ok parse_ret start_ret =
     (if \<not> alloc_ok then
        Some (- ENOMEM, dev0, None, [Dev_err (''cannot allocate hid-generic data'' @ [CHR 0x0A])])
      else
        let dev = probe_context hdev_p;
            dev1 = dev0\<lparr>quirks := quirks dev0 OR HID_QUIRK_INPUT_PER_APP\<rparr>
        in if parse_ret \<noteq> 0 then Some (parse_ret, dev1, Some dev, [Hid_parse])
           else
             let s1 = hid_generic_fetch_resolution_multiplier
                        \<lparr>the_hdev = dev1, drvdata = dev, calls = [Hid_parse], sent = []\<rparr>;
                 s2 = s1\<lparr>calls := calls s1 @ [Hid_hw_start HID_CONNECT_DEFAULT]\<rparr>
             in case hid_generic_set_resolution_multiplier s2 of
                  None \<Rightarrow> None
                | Some s3 \<Rightarrow> Some (start_ret, the_hdev s3, Some (drvdata s3), calls s3))"

record hid_input =
  input :: ptr

definition hid_generic_input_configured :: "hid_state \<Rightarrow> hid_input \<Rightarrow> int \<times> hid_state" where
  "hid_generic_input_configured s hidinput =
     (let inp = input hidinput;
          dev = (drvdata s)\<lparr>device := inp\<rparr>
      in (0, s\<lparr>drvdata := dev,
               calls := calls s @
                 (if 1 < wheel_multiplier dev
                  then [Input_set_capability inp EV_REL REL_WHEEL_HI_RES] else []) @
                 (if 1 < hwheel_multiplier dev
                  then [Input_set_capability inp EV_REL REL_HWHEEL_HI_RES] else [])\<rparr>))"

definition hid_generic_reset_resume :: "hid_state \<Rightarrow> (int \<times> hid_state) option" where
  "hid_generic_reset_resume s =
     (case hid_generic_set_resolution_multiplier s of
        None \<Rightarrow> None
      | Some s' \<Rightarrow> Some (0, s'))"

section \<open>Vocabulary of the properties\<close>

subsection \<open>Slots of the device context\<close>

text \<open>
  A slot is occupied when its report id is not the marker \<open>- 1\<close>. The slots are
  prefix-ordered when slot 1 is occupied only if slot 0 is.
\<close>

definition occupied :: "hid_generic_device \<Rightarrow> nat \<Rightarrow> bool" where
  "occupied dev i \<longleftrightarrow> nth2 (report_id dev) i \<noteq> - 1"

definition occupied_slots :: "hid_generic_device \<Rightarrow> nat list" where
  "occupied_slots dev = filter (occupied dev) [0, 1]"

definition slots_prefix :: "hid_generic_device \<Rightarrow> bool" where
  "slots_prefix dev \<longleftrightarrow> (occupied dev 1 \<longrightarrow> occupied dev 0)"

definition multipliers_default :: "hid_generic_device \<Rightarrow> bool" where
  "multipliers_default dev \<longleftrightarrow> wheel_multiplier dev = 1 \<and> hwheel_multiplier dev = 1"

text \<open>
  The field that a slot addresses in the feature reports of a state: the position of
  the report in the report list and the index of the field, where both exist. The slot
  is valid when, in addition, the value that the activation writes exists.
\<close>

definition feature_reports :: "hid_state \<Rightarrow> hid_report list" where
  "feature_reports s = report_list (report_enum (the_hdev s) HID_FEATURE_REPORT)"

definition slot_target :: "hid_state \<Rightarrow> nat \<Rightarrow> (nat \<times> nat) option" where
  "slot_target s i =
     (case report_id_hash (report_enum (the_hdev s) HID_FEATURE_REPORT)
             (nth2 (report_id (drvdata s)) i) of
        None \<Rightarrow> None
      | Some p \<Rightarrow>
          if maxfield (feature_reports s ! p) \<le> unat (nth2 (field_index (drvdata s)) i)
          then None else Some (p, unat (nth2 (field_index (drvdata s)) i)))"

definition slot_field :: "hid_state \<Rightarrow> nat \<Rightarrow> hid_field option" where
  "slot_field s i =
     (case slot_target s i of
        None \<Rightarrow> None
      | Some (p, fi) \<Rightarrow> Some (field (feature_reports s ! p) ! fi))"

definition value_index :: "hid_field \<Rightarrow> nat" where
  "value_index fld = unat (usage_index (usage fld))"

definition slot_valid :: "hid_state \<Rightarrow> nat \<Rightarrow> bool" where
  "slot_valid s i =
     (case slot_field s i of
        None \<Rightarrow> False
      | Some fld \<Rightarrow> value_index fld < length (value_f fld))"

definition slot_at_max :: "hid_state \<Rightarrow> nat \<Rightarrow> bool" where
  "slot_at_max s i =
     (case slot_field s i of
        None \<Rightarrow> False
      | Some fld \<Rightarrow> value_f fld ! value_index fld = logical_maximum fld)"

text \<open>The configuration write request that the activation issues for slot \<open>i\<close>.\<close>

definition set_request :: "hid_generic_device \<Rightarrow> nat \<Rightarrow> call" where
  "set_request dev i =
     Hid_hw_request HID_FEATURE_REPORT (nth2 (report_id dev) i) HID_REQ_SET_REPORT"

fun is_hw_request :: "call \<Rightarrow> bool" where
  "is_hw_request (Hid_hw_request t k q) = True"
| "is_hw_request c = False"

definition hw_requests :: "call list \<Rightarrow> call list" where
  "hw_requests cs = filter is_hw_request cs"

subsection \<open>One pass of the activation loop, as an update of the state\<close>

definition write_max :: "hid_field \<Rightarrow> hid_field" where
  "write_max fld = fld\<lparr>value_f := (value_f fld)[value_index fld := logical_maximum fld]\<rparr>"

definition write_slot :: "hid_report list \<Rightarrow> nat \<times> nat \<Rightarrow> hid_report list" where
  "write_slot reps t =
     (case t of (p, fi) \<Rightarrow>
        reps[p := (reps ! p)\<lparr>field := (field (reps ! p))[fi := write_max (field (reps ! p) ! fi)]\<rparr>])"

definition with_feature_reports :: "hid_state \<Rightarrow> hid_report list \<Rightarrow> hid_state" where
  "with_feature_reports s reps =
     s\<lparr>the_hdev := (the_hdev s)
          \<lparr>report_enum := (report_enum (the_hdev s))
             (HID_FEATURE_REPORT :=
                (report_enum (the_hdev s) HID_FEATURE_REPORT)\<lparr>report_list := reps\<rparr>)\<rparr>\<rparr>"

definition sent_report :: "nat \<Rightarrow> hid_state \<Rightarrow> hid_report" where
  "sent_report i s =
     write_slot (feature_reports s) (the (slot_target s i)) ! fst (the (slot_target s i))"

text \<open>The report that holds the field of slot \<open>i\<close>, as it is in the state.\<close>

definition slot_report :: "hid_state \<Rightarrow> nat \<Rightarrow> hid_report" where
  "slot_report s i = feature_reports s ! fst (the (slot_target s i))"

text \<open>
  The report \<open>rep\<close>, as a request passes it, holds the logical maximum in the field of
  slot \<open>i\<close>, at the index of the usage of that field.
\<close>

definition carries_max :: "hid_state \<Rightarrow> nat \<Rightarrow> hid_report \<Rightarrow> bool" where
  "carries_max s i rep =
     (case slot_target s i of
        None \<Rightarrow> False
      | Some (p, fi) \<Rightarrow>
          fi < maxfield rep \<and>
          value_index (field rep ! fi) < length (value_f (field rep ! fi)) \<and>
          value_f (field rep ! fi) ! value_index (field rep ! fi) =
            logical_maximum (field rep ! fi))"

text \<open>
  The slots that an activation visits: none when both multipliers are 1, else the slots
  before the first empty one.
\<close>

definition visited_slots :: "hid_generic_device \<Rightarrow> nat list" where
  "visited_slots dev =
     (if wheel_multiplier dev = 1 \<and> hwheel_multiplier dev = 1 then []
      else takeWhile (occupied dev) [0, 1])"

definition after_slot :: "nat \<Rightarrow> hid_state \<Rightarrow> hid_state" where
  "after_slot i s =
     (with_feature_reports s (write_slot (feature_reports s) (the (slot_target s i))))
       \<lparr>calls := calls s @ [set_request (drvdata s) i],
        sent := sent s @ [sent_report i s]\<rparr>"

fun after_slots :: "nat list \<Rightarrow> hid_state \<Rightarrow> hid_state" where
  "after_slots [] s = s"
| "after_slots (i # is) s = after_slots is (after_slot i s)"

subsection \<open>Discovery\<close>

text \<open>
  The fields of the feature reports in the order in which the discovery visits them,
  each with its report; the step of the discovery at one of them; the fields that
  qualify: resolution multipliers whose collection holds, by the scan of the driver, a
  wheel or a horizontal wheel.
\<close>

definition feature_fields :: "hid_device \<Rightarrow> (hid_report \<times> hid_field) list" where
  "feature_fields dev =
     concat (map (\<lambda>rep. map (Pair rep) (field rep))
       (report_list (report_enum dev HID_FEATURE_REPORT)))"

definition fetch_step :: "hid_state \<Rightarrow> hid_report \<times> hid_field \<Rightarrow> hid_state" where
  "fetch_step s x =
     (case x of (rep, fld) \<Rightarrow>
        if hid (usage fld) = HID_GD_RESOLUTION_MULTIPLIER
        then handle_resolution_multiplier s rep fld (usage fld) else s)"

definition qualifying :: "hid_device \<Rightarrow> hid_field \<Rightarrow> bool" where
  "qualifying dev fld \<longleftrightarrow>
     hid (usage fld) = HID_GD_RESOLUTION_MULTIPLIER \<and>
     (usage_in_collection dev HID_GD_WHEEL (collection_index (usage fld)) \<or>
      usage_in_collection dev HID_CP_AC_PAN (collection_index (usage fld)))"

definition qualifying_fields :: "hid_device \<Rightarrow> (hid_report \<times> hid_field) list" where
  "qualifying_fields dev = filter (\<lambda>(rep, fld). qualifying dev fld) (feature_fields dev)"

text \<open>
  The fields that qualify in the words of the specification: resolution multipliers
  that share their collection with a wheel or a horizontal-wheel usage, whichever
  usage of its field that is.
\<close>

definition spec_qualifying :: "hid_device \<Rightarrow> hid_field \<Rightarrow> bool" where
  "spec_qualifying dev fld \<longleftrightarrow>
     hid (usage fld) = HID_GD_RESOLUTION_MULTIPLIER \<and>
     (spec_usage_in_collection dev HID_GD_WHEEL (collection_index (usage fld)) \<or>
      spec_usage_in_collection dev HID_CP_AC_PAN (collection_index (usage fld)))"

definition spec_qualifying_fields :: "hid_device \<Rightarrow> (hid_report \<times> hid_field) list" where
  "spec_qualifying_fields dev =
     filter (\<lambda>(rep, fld). spec_qualifying dev fld) (feature_fields dev)"

text \<open>The state of the attach after the discovery, before the device is started.\<close>

definition discovery :: "hid_device \<Rightarrow> ptr \<Rightarrow> hid_state" where
  "discovery dev p =
     hid_generic_fetch_resolution_multiplier
       \<lparr>the_hdev = dev\<lparr>quirks := quirks dev OR HID_QUIRK_INPUT_PER_APP\<rparr>,
        drvdata = probe_context p, calls = [Hid_parse], sent = []\<rparr>"

text \<open>
  What the parser of the HID core establishes for a report list: a report is registered
  once under its id, which is below \<open>HID_MAX_IDS\<close>; the member \<^verbatim>\<open>index\<close> of a field is
  its position in the field array of its report; the first usage of a field has a value.
\<close>

definition wf_report :: "hid_report \<Rightarrow> bool" where
  "wf_report rep \<longleftrightarrow>
     unat (id_r rep) < HID_MAX_IDS \<and>
     list_all (\<lambda>(i, fld). unat (index_f fld) = i \<and> value_index fld < length (value_f fld))
       (enumerate 0 (field rep))"

definition wf_reports :: "hid_report list \<Rightarrow> bool" where
  "wf_reports reps \<longleftrightarrow> distinct (map id_r reps) \<and> list_all wf_report reps"

definition slot_from :: "hid_device \<Rightarrow> hid_generic_device \<Rightarrow> nat \<Rightarrow> bool" where
  "slot_from dev ctx i \<longleftrightarrow>
     (\<exists>x \<in> set (feature_fields dev).
        nth2 (report_id ctx) i = id_r (fst x) \<and> nth2 (field_index ctx) i = index_f (snd x))"

subsection \<open>Reachable states\<close>

text \<open>
  The states of a device: the attach creates the device context; every step of the
  discovery, the start of the device, the activation of the attach, every resume, every
  finalization of the input capabilities and every translated event leads from a
  reachable state to a reachable state.
\<close>

inductive reachable :: "hid_state \<Rightarrow> bool" where
  created: "reachable \<lparr>the_hdev = dev, drvdata = probe_context p, calls = cs, sent = rs\<rparr>"
| discovered: "reachable s \<Longrightarrow> reachable (handle_resolution_multiplier s rep fld usg)"
| started: "reachable s \<Longrightarrow> reachable (s\<lparr>calls := calls s @ [Hid_hw_start m]\<rparr>)"
| activated: "reachable s \<Longrightarrow> hid_generic_set_resolution_multiplier s = Some s' \<Longrightarrow>
              reachable s'"
| resumed: "reachable s \<Longrightarrow> hid_generic_reset_resume s = Some (ret, s') \<Longrightarrow> reachable s'"
| configured: "reachable s \<Longrightarrow> reachable (snd (hid_generic_input_configured s hidinput))"
| translated: "reachable s \<Longrightarrow> reachable (snd (hid_generic_event s fld usg val))"

section \<open>Example devices\<close>

text \<open>
  A mouse whose wheel and whose horizontal wheel each have a field of their own, in a
  collection that also holds a resolution multiplier. Both multipliers are fields of
  the feature report 23. The pointer motion is a field with the usages X and Y.
\<close>

definition motion_field :: hid_field where
  "motion_field =
     \<lparr>usage = \<lparr>hid = 0x00010030, collection_index = 1, usage_index = 0\<rparr>,
      usage_rest = [\<lparr>hid = 0x00010031, collection_index = 1, usage_index = 1\<rparr>],
      logical_maximum = 127, physical_maximum = 0, value_f = [0, 0], index_f = 0\<rparr>"

definition wheel_field :: hid_field where
  "wheel_field =
     \<lparr>usage = \<lparr>hid = HID_GD_WHEEL, collection_index = 2, usage_index = 0\<rparr>,
      usage_rest = [],
      logical_maximum = 127, physical_maximum = 0, value_f = [0], index_f = 1\<rparr>"

definition pan_field :: hid_field where
  "pan_field =
     \<lparr>usage = \<lparr>hid = HID_CP_AC_PAN, collection_index = 3, usage_index = 0\<rparr>,
      usage_rest = [],
      logical_maximum = 127, physical_maximum = 0, value_f = [0], index_f = 2\<rparr>"

definition wheel_multiplier_field :: hid_field where
  "wheel_multiplier_field =
     \<lparr>usage = \<lparr>hid = HID_GD_RESOLUTION_MULTIPLIER, collection_index = 2, usage_index = 0\<rparr>,
      usage_rest = [],
      logical_maximum = 1, physical_maximum = 8, value_f = [0], index_f = 0\<rparr>"

definition pan_multiplier_field :: hid_field where
  "pan_multiplier_field =
     \<lparr>usage = \<lparr>hid = HID_GD_RESOLUTION_MULTIPLIER, collection_index = 3, usage_index = 0\<rparr>,
      usage_rest = [],
      logical_maximum = 1, physical_maximum = 4, value_f = [0], index_f = 1\<rparr>"

definition no_reports :: hid_report_enum where
  "no_reports = \<lparr>report_list = []\<rparr>"

definition hires_mouse :: hid_device where
  "hires_mouse =
     \<lparr>report_enum = (\<lambda>t. no_reports)
        (HID_INPUT_REPORT :=
           \<lparr>report_list = [\<lparr>id_r = 1, field = [motion_field, wheel_field, pan_field]\<rparr>]\<rparr>,
         HID_FEATURE_REPORT :=
           \<lparr>report_list =
              [\<lparr>id_r = 23, field = [wheel_multiplier_field, pan_multiplier_field]\<rparr>]\<rparr>),
      quirks = 0\<rparr>"

text \<open>The device context of that mouse after discovery, and a state with it.\<close>

definition hires_context :: hid_generic_device where
  "hires_context =
     \<lparr>hdev = 1, device = 2, wheel_multiplier = 8, hwheel_multiplier = 4,
      report_id = (23, 23), field_index = (0, 1)\<rparr>"

definition hires_state :: hid_state where
  "hires_state =
     \<lparr>the_hdev = hires_mouse, drvdata = hires_context, calls = [], sent = []\<rparr>"

text \<open>
  The feature report 23 of that mouse with the value \<open>a\<close> in the field of the wheel
  multiplier and the value \<open>b\<close> in the field of the multiplier of the horizontal wheel.
\<close>

definition report_23 :: "s32 \<Rightarrow> s32 \<Rightarrow> hid_report" where
  "report_23 a b =
     \<lparr>id_r = 23, field = [wheel_multiplier_field\<lparr>value_f := [a]\<rparr>,
                           pan_multiplier_field\<lparr>value_f := [b]\<rparr>]\<rparr>"

text \<open>
  An ordinary mouse: one input field with the usages X, Y and wheel, in this order, and
  no feature report. An event of its wheel names the third usage of that field.
\<close>

definition plain_wheel_usage :: hid_usage where
  "plain_wheel_usage = \<lparr>hid = HID_GD_WHEEL, collection_index = 1, usage_index = 2\<rparr>"

definition plain_field :: hid_field where
  "plain_field =
     \<lparr>usage = \<lparr>hid = 0x00010030, collection_index = 1, usage_index = 0\<rparr>,
      usage_rest = [\<lparr>hid = 0x00010031, collection_index = 1, usage_index = 1\<rparr>,
                    plain_wheel_usage],
      logical_maximum = 127, physical_maximum = 0, value_f = [0, 0, 0], index_f = 0\<rparr>"

definition plain_mouse :: hid_device where
  "plain_mouse =
     \<lparr>report_enum = (\<lambda>t. no_reports)
        (HID_INPUT_REPORT := \<lparr>report_list = [\<lparr>id_r = 0, field = [plain_field]\<rparr>]\<rparr>),
      quirks = 0\<rparr>"

definition plain_state :: hid_state where
  "plain_state =
     \<lparr>the_hdev = plain_mouse,
      drvdata = \<lparr>hdev = 1, device = 2, wheel_multiplier = 1, hwheel_multiplier = 1,
                 report_id = (- 1, - 1), field_index = (- 1, - 1)\<rparr>,
      calls = [], sent = []\<rparr>"

text \<open>
  A mouse that reports the pointer motion and the wheel in one field, with the usages X,
  Y and wheel of collection 1, and the horizontal wheel in a field of its own, in
  collection 3. Its feature report 23 holds three resolution multipliers in collection 1,
  the collection of the wheel, and one in collection 3.
\<close>

definition combined_multiplier_field :: "u32 \<Rightarrow> hid_field" where
  "combined_multiplier_field k =
     \<lparr>usage = \<lparr>hid = HID_GD_RESOLUTION_MULTIPLIER, collection_index = 1, usage_index = 0\<rparr>,
      usage_rest = [],
      logical_maximum = 1, physical_maximum = 8, value_f = [0], index_f = k\<rparr>"

definition combined_mouse :: hid_device where
  "combined_mouse =
     \<lparr>report_enum = (\<lambda>t. no_reports)
        (HID_INPUT_REPORT :=
           \<lparr>report_list = [\<lparr>id_r = 1, field = [plain_field, pan_field\<lparr>index_f := 1\<rparr>]\<rparr>]\<rparr>,
         HID_FEATURE_REPORT :=
           \<lparr>report_list =
              [\<lparr>id_r = 23,
                field = [combined_multiplier_field 0, combined_multiplier_field 1,
                         combined_multiplier_field 2,
                         pan_multiplier_field\<lparr>index_f := 3\<rparr>]\<rparr>]\<rparr>),
      quirks = 0\<rparr>"

text \<open>
  The first mouse with a firmware bug: a third resolution multiplier in the collection of
  the wheel.
\<close>

definition extra_multiplier_field :: hid_field where
  "extra_multiplier_field =
     \<lparr>usage = \<lparr>hid = HID_GD_RESOLUTION_MULTIPLIER, collection_index = 2, usage_index = 0\<rparr>,
      usage_rest = [],
      logical_maximum = 1, physical_maximum = 16, value_f = [0], index_f = 2\<rparr>"

definition faulty_mouse :: hid_device where
  "faulty_mouse =
     \<lparr>report_enum = (\<lambda>t. no_reports)
        (HID_INPUT_REPORT :=
           \<lparr>report_list = [\<lparr>id_r = 1, field = [motion_field, wheel_field, pan_field]\<rparr>]\<rparr>,
         HID_FEATURE_REPORT :=
           \<lparr>report_list =
              [\<lparr>id_r = 23, field = [wheel_multiplier_field, pan_multiplier_field,
                                     extra_multiplier_field]\<rparr>]\<rparr>),
      quirks = 0\<rparr>"

text \<open>
  A bus with three drivers, the generic driver at address 10. One matching function
  knows the device for the driver at address 12 only, the other for the generic driver
  only (its table matches every device).
\<close>

definition special_match :: "hid_device \<Rightarrow> ptr \<Rightarrow> ptr" where
  "special_match dev drv = (if drv = 12 then 77 else NULL)"

definition generic_match :: "hid_device \<Rightarrow> ptr \<Rightarrow> ptr" where
  "generic_match dev drv = (if drv = 10 then 78 else NULL)"

section \<open>Properties\<close>

subsection \<open>Facts about the example devices\<close>

lemmas hires_defs =
  hires_mouse_def motion_field_def wheel_field_def pan_field_def
  wheel_multiplier_field_def pan_multiplier_field_def no_reports_def
  HID_GD_WHEEL_def HID_CP_AC_PAN_def HID_GD_RESOLUTION_MULTIPLIER_def

lemmas faulty_defs =
  faulty_mouse_def motion_field_def wheel_field_def pan_field_def
  wheel_multiplier_field_def pan_multiplier_field_def extra_multiplier_field_def
  no_reports_def HID_GD_WHEEL_def HID_CP_AC_PAN_def HID_GD_RESOLUTION_MULTIPLIER_def

lemma hires_context_discovered:
  "drvdata (discovery hires_mouse p) = hires_context\<lparr>hdev := p, device := NULL\<rparr>"
  by (simp add: discovery_def hid_generic_fetch_resolution_multiplier_def
      handle_resolution_multiplier_def usage_in_collection_def probe_context_def
      Let_def nth2_def upd2_def hires_defs hires_context_def)

lemma hires_wf: "wf_reports (report_list (report_enum hires_mouse HID_FEATURE_REPORT))"
  by (simp add: wf_reports_def wf_report_def hires_defs HID_MAX_IDS_def value_index_def
      enumerate_eq_zip)

lemma hires_slots: "occupied_slots hires_context = [0, 1]"
  by (simp add: occupied_slots_def occupied_def hires_context_def nth2_def)

lemma hires_valid: "slot_valid hires_state 0 \<and> slot_valid hires_state 1"
  by (simp add: slot_valid_def slot_field_def slot_target_def report_id_hash_def
      feature_reports_def hires_state_def hires_context_def nth2_def HID_MAX_IDS_def
      maxfield_def value_index_def hires_defs)

lemma hires_fields:
  "slot_field hires_state 0 = Some wheel_multiplier_field \<and>
   slot_field hires_state 1 = Some pan_multiplier_field"
  by (simp add: slot_valid_def slot_field_def slot_target_def report_id_hash_def
      feature_reports_def hires_state_def hires_context_def nth2_def HID_MAX_IDS_def
      maxfield_def value_index_def hires_mouse_def)

lemmas combined_defs =
  combined_mouse_def combined_multiplier_field_def plain_field_def plain_wheel_usage_def
  pan_field_def pan_multiplier_field_def no_reports_def
  HID_GD_WHEEL_def HID_CP_AC_PAN_def HID_GD_RESOLUTION_MULTIPLIER_def

lemma combined_context_discovered:
  "drvdata (discovery combined_mouse p) =
     \<lparr>hdev = p, device = NULL, wheel_multiplier = 1, hwheel_multiplier = 4,
      report_id = (23, - 1), field_index = (3, - 1)\<rparr>"
  by (simp add: discovery_def hid_generic_fetch_resolution_multiplier_def
      handle_resolution_multiplier_def usage_in_collection_def probe_context_def
      Let_def nth2_def upd2_def combined_defs)

subsection \<open>The event translator\<close>

lemma sint_mult_in_range:
  fixes v m :: "32 word"
  assumes "- (2 ^ 31) \<le> sint v * uint m" and "sint v * uint m < 2 ^ 31"
  shows "sint (v * m) = sint v * uint m"
proof -
  have "v * m = word_of_int (sint v * uint m)"
    by simp
  then have "sint (v * m) = signed_take_bit 31 (sint v * uint m)"
    by (simp only: sint_sbintrunc') simp
  also have "\<dots> = sint v * uint m"
    using assms by (simp add: signed_take_bit_int_eq_self)
  finally show ?thesis .
qed

text \<open>
  What the switch of \<^verbatim>\<open>hid_generic_event\<close> does where it finds the wheel usage: the
  translator calls the input core three times, in this order: the high-resolution wheel
  event with the value times \<open>wheel_multiplier\<close>, the legacy wheel event with the value
  itself, and the synchronization. It returns 1: the event is consumed. The horizontal
  wheel is the same with \<open>hwheel_multiplier\<close> and the horizontal event codes. The
  product is the one of 32-bit arithmetic; it is the product of the signed value and
  the unsigned multiplier whenever that fits a signed 32-bit integer. The usage that
  the switch reads is the one that the field of the event points to, the first usage
  of the field, whichever usage the event has.
\<close>

lemma hid_generic_event_switch:
  "(hid (usage fld) = HID_GD_WHEEL \<longrightarrow>
      hid_generic_event s fld usg val =
        (1, s\<lparr>calls := calls s @
              [Input_report_rel (device (drvdata s)) REL_WHEEL_HI_RES
                 (val * wheel_multiplier (drvdata s)),
               Input_report_rel (device (drvdata s)) REL_WHEEL val,
               Input_sync (device (drvdata s))]\<rparr>) \<and>
      (- (2 ^ 31) \<le> sint val * uint (wheel_multiplier (drvdata s)) \<and>
       sint val * uint (wheel_multiplier (drvdata s)) < 2 ^ 31 \<longrightarrow>
       sint (val * wheel_multiplier (drvdata s)) =
         sint val * uint (wheel_multiplier (drvdata s)))) \<and>
   (hid (usage fld) = HID_CP_AC_PAN \<longrightarrow>
      hid_generic_event s fld usg val =
        (1, s\<lparr>calls := calls s @
              [Input_report_rel (device (drvdata s)) REL_HWHEEL_HI_RES
                 (val * hwheel_multiplier (drvdata s)),
               Input_report_rel (device (drvdata s)) REL_HWHEEL val,
               Input_sync (device (drvdata s))]\<rparr>) \<and>
      (- (2 ^ 31) \<le> sint val * uint (hwheel_multiplier (drvdata s)) \<and>
       sint val * uint (hwheel_multiplier (drvdata s)) < 2 ^ 31 \<longrightarrow>
       sint (val * hwheel_multiplier (drvdata s)) =
         sint val * uint (hwheel_multiplier (drvdata s))))"
  by (simp add: hid_generic_event_def Let_def HID_GD_WHEEL_def HID_CP_AC_PAN_def
      sint_mult_in_range)

text \<open>
  On the mouse whose wheel has a field of its own, value 3 and wheel multiplier 8 give
  the high-resolution magnitude 24 and the legacy magnitude 3. The horizontal wheel,
  with value -2 and multiplier 4, gives -8 and -2.
\<close>

lemma hid_generic_event_switch_hires:
  "hid_generic_event hires_state wheel_field (usage wheel_field) 3 =
     (1, hires_state\<lparr>calls :=
           [Input_report_rel 2 REL_WHEEL_HI_RES 24, Input_report_rel 2 REL_WHEEL 3,
            Input_sync 2]\<rparr>) \<and>
   hid_generic_event hires_state pan_field (usage pan_field) (- 2) =
     (1, hires_state\<lparr>calls :=
           [Input_report_rel 2 REL_HWHEEL_HI_RES (- 8), Input_report_rel 2 REL_HWHEEL (- 2),
            Input_sync 2]\<rparr>)"
  using hid_generic_event_switch [of wheel_field hires_state "usage wheel_field" 3]
    hid_generic_event_switch [of pan_field hires_state "usage pan_field" "- 2"]
  by (simp add: wheel_field_def pan_field_def hires_state_def hires_context_def
      HID_GD_WHEEL_def HID_CP_AC_PAN_def)

text \<open>
  C1, as it is stated, fails on the wheel of the ordinary mouse, whose only input field
  has the usages X, Y and wheel. The event of its wheel has the wheel usage, which the usage table of the
  driver lists, so the event reaches \<^verbatim>\<open>hid_generic_event\<close>. The switch reads the first
  usage of the field, X: no case applies, nothing is passed to the input core, and the
  function returns 1, which reports the event as consumed. By C1 the translator emits
  the high-resolution event of magnitude 3 (the multiplier is 1), the legacy event of
  magnitude 3 and the synchronization.
\<close>

theorem hid_generic_event_wheel_lost:
  "hid plain_wheel_usage = HID_GD_WHEEL \<and>
   plain_wheel_usage \<in> set (usages plain_field) \<and>
   hid plain_wheel_usage \<in> set (map usage_hid hid_generic_grabbed_usages) \<and>
   hid_generic_event plain_state plain_field plain_wheel_usage 3 = (1, plain_state) \<and>
   calls plain_state = []"
  by (simp add: hid_generic_event_def plain_field_def plain_wheel_usage_def usages_def
      hid_generic_grabbed_usages_def plain_state_def HID_GD_WHEEL_def HID_CP_AC_PAN_def)

text \<open>
  The callback itself returns 1 for every event that it is called with. The events of
  the other usages are kept from it by the usage table.
\<close>

lemma hid_generic_event_returns:
  "fst (hid_generic_event s fld usg val) = 1"
  by (simp add: hid_generic_event_def Let_def)




subsection \<open>The fallback matcher\<close>

lemma bus_for_each_drv_check:
  "bus_for_each_drv drvs data (check_hid_generic g m) \<noteq> 0 \<longleftrightarrow>
     (\<exists>drv \<in> set drvs. drv \<noteq> g \<and> m data drv \<noteq> NULL)"
  by (induction drvs) (auto simp: check_hid_generic_def Let_def)

text \<open>
  C5. \<^verbatim>\<open>hid_generic_match\<close> accepts every device when the force flag is set. Without
  the flag it rejects every device that carries the quirk of a special driver, and
  accepts any other device exactly when no registered driver other than the generic
  driver itself has a matching table entry for it.
\<close>

theorem hid_generic_match_fallback:
  "(ignore_special_driver \<longrightarrow>
      hid_generic_match g m bus dev ignore_special_driver) \<and>
   (\<not> ignore_special_driver \<and> quirks dev AND HID_QUIRK_HAVE_SPECIAL_DRIVER \<noteq> 0 \<longrightarrow>
      \<not> hid_generic_match g m bus dev ignore_special_driver) \<and>
   (\<not> ignore_special_driver \<and> quirks dev AND HID_QUIRK_HAVE_SPECIAL_DRIVER = 0 \<longrightarrow>
      (hid_generic_match g m bus dev ignore_special_driver \<longleftrightarrow>
         \<not> (\<exists>drv \<in> set bus. drv \<noteq> g \<and> m dev drv \<noteq> NULL)))"
  unfolding hid_generic_match_def using bus_for_each_drv_check [of bus dev g m] by auto

theorem hid_generic_match_fallback_witness:
  "hid_generic_match 10 special_match [10, 11, 12] plain_mouse True \<and>
   \<not> hid_generic_match 10 generic_match [10, 11, 12]
       (plain_mouse\<lparr>quirks := HID_QUIRK_HAVE_SPECIAL_DRIVER\<rparr>) False \<and>
   \<not> hid_generic_match 10 special_match [10, 11, 12] plain_mouse False \<and>
   hid_generic_match 10 generic_match [10, 11, 12] plain_mouse False"
  using hid_generic_match_fallback [of True 10 special_match "[10, 11, 12]" plain_mouse]
    hid_generic_match_fallback [of False 10 generic_match "[10, 11, 12]"
      "plain_mouse\<lparr>quirks := HID_QUIRK_HAVE_SPECIAL_DRIVER\<rparr>"]
    hid_generic_match_fallback [of False 10 special_match "[10, 11, 12]" plain_mouse]
    hid_generic_match_fallback [of False 10 generic_match "[10, 11, 12]" plain_mouse]
  by (simp add: special_match_def generic_match_def plain_mouse_def NULL_def
      HID_QUIRK_HAVE_SPECIAL_DRIVER_def)

subsection \<open>The capability scanner\<close>

lemma usage_in_fields_iff:
  "usage_in_fields flds usage_id collection \<longleftrightarrow>
     (\<exists>fld \<in> set flds. hid (usage fld) = usage_id \<and> collection_index (usage fld) = collection)"
  by (induction flds) auto

lemma usage_in_reports_iff:
  "usage_in_reports reps usage_id collection \<longleftrightarrow>
     (\<exists>rep \<in> set reps. \<exists>fld \<in> set (field rep).
        hid (usage fld) = usage_id \<and> collection_index (usage fld) = collection)"
  by (induction reps) (auto simp: usage_in_fields_iff)

text \<open>
  The scan in the words of the specification is the scan over every usage of every
  field of every report of the input report list.
\<close>

lemma spec_usage_in_collection_iff:
  "spec_usage_in_collection dev usage_id collection \<longleftrightarrow>
     (\<exists>rep \<in> set (report_list (report_enum dev HID_INPUT_REPORT)).
      \<exists>fld \<in> set (field rep). \<exists>u \<in> set (usages fld).
        hid u = usage_id \<and> collection_index u = collection)"
  by (simp add: spec_usage_in_collection_def list_ex_iff)

text \<open>
  What the scan of the driver computes: \<^verbatim>\<open>usage_in_collection\<close> returns true exactly
  when some field of some report of the input report list has, as the usage that its
  member \<^verbatim>\<open>usage\<close> points to (the first usage of the field), a usage with the
  identifier and the collection index. The loops run over the reports and over the
  fields; the other usages of a field are not read.
\<close>

lemma usage_in_collection_first_usage:
  "usage_in_collection dev usage_id collection \<longleftrightarrow>
     (\<exists>rep \<in> set (report_list (report_enum dev HID_INPUT_REPORT)).
      \<exists>fld \<in> set (field rep).
        hid (usage fld) = usage_id \<and> collection_index (usage fld) = collection)"
  by (simp add: usage_in_collection_def usage_in_reports_iff)

text \<open>
  C4, as it is stated, fails on the mouse that reports X, Y and the wheel in one field.
  Its feature report holds a resolution multiplier of collection 1, so the discovery asks the scan for the
  wheel usage in collection 1. The wheel usage is in collection 1, as the third usage
  of the first input field, and the scan answers false: the multiplier of the wheel is
  not found, although the multiplier applies to the usages of its collection.
\<close>

theorem usage_in_collection_misses_wheel:
  "combined_multiplier_field 0 \<in> snd ` set (feature_fields combined_mouse) \<and>
   hid (usage (combined_multiplier_field 0)) = HID_GD_RESOLUTION_MULTIPLIER \<and>
   collection_index (usage (combined_multiplier_field 0)) = 1 \<and>
   spec_usage_in_collection combined_mouse HID_GD_WHEEL 1 \<and>
   \<not> usage_in_collection combined_mouse HID_GD_WHEEL 1"
  by (simp add: usage_in_collection_def spec_usage_in_collection_def feature_fields_def
      usages_def combined_defs)

subsection \<open>Capability advertisement\<close>

lemma fetch_fields_no_multiplier:
  "\<forall>fld \<in> set flds. hid (usage fld) \<noteq> HID_GD_RESOLUTION_MULTIPLIER \<Longrightarrow>
   fetch_fields rep flds s = s"
  by (induction flds arbitrary: s) auto

lemma fetch_reports_no_multiplier:
  "\<forall>rep \<in> set reps. \<forall>fld \<in> set (field rep).
      hid (usage fld) \<noteq> HID_GD_RESOLUTION_MULTIPLIER \<Longrightarrow>
   fetch_reports reps s = s"
  by (induction reps arbitrary: s) (auto simp: fetch_fields_no_multiplier)

lemma input_configured_calls:
  "hid_generic_input_configured s hidinput =
     (0, s\<lparr>drvdata := (drvdata s)\<lparr>device := input hidinput\<rparr>,
           calls := calls s @
             (if 1 < wheel_multiplier (drvdata s)
              then [Input_set_capability (input hidinput) EV_REL REL_WHEEL_HI_RES] else []) @
             (if 1 < hwheel_multiplier (drvdata s)
              then [Input_set_capability (input hidinput) EV_REL REL_HWHEEL_HI_RES] else [])\<rparr>)"
  by (simp add: hid_generic_input_configured_def Let_def)

text \<open>
  C6. \<^verbatim>\<open>hid_generic_input_configured\<close> returns 0, stores the input device, and declares
  the high-resolution wheel capability exactly when \<open>wheel_multiplier\<close> exceeds 1, the
  high-resolution horizontal-wheel capability exactly when \<open>hwheel_multiplier\<close> exceeds
  1. When no field of a feature report is a resolution multiplier, the discovery of the
  attach leaves both multipliers at 1, and the finalization that follows declares
  nothing.
\<close>

theorem hid_generic_input_configured_advertises:
  "(\<exists>caps. hid_generic_input_configured s hidinput =
        (0, s\<lparr>drvdata := (drvdata s)\<lparr>device := input hidinput\<rparr>, calls := calls s @ caps\<rparr>) \<and>
      (Input_set_capability (input hidinput) EV_REL REL_WHEEL_HI_RES \<in> set caps \<longleftrightarrow>
         1 < wheel_multiplier (drvdata s)) \<and>
      (Input_set_capability (input hidinput) EV_REL REL_HWHEEL_HI_RES \<in> set caps \<longleftrightarrow>
         1 < hwheel_multiplier (drvdata s))) \<and>
   ((\<forall>rep \<in> set (report_list (report_enum dev HID_FEATURE_REPORT)).
       \<forall>fld \<in> set (field rep). hid (usage fld) \<noteq> HID_GD_RESOLUTION_MULTIPLIER) \<longrightarrow>
    wheel_multiplier (drvdata (discovery dev p)) = 1 \<and>
    hwheel_multiplier (drvdata (discovery dev p)) = 1 \<and>
    calls (snd (hid_generic_input_configured (discovery dev p) hidinput)) =
      calls (discovery dev p))"
proof (intro conjI impI)
  show "\<exists>caps. hid_generic_input_configured s hidinput =
        (0, s\<lparr>drvdata := (drvdata s)\<lparr>device := input hidinput\<rparr>, calls := calls s @ caps\<rparr>) \<and>
      (Input_set_capability (input hidinput) EV_REL REL_WHEEL_HI_RES \<in> set caps \<longleftrightarrow>
         1 < wheel_multiplier (drvdata s)) \<and>
      (Input_set_capability (input hidinput) EV_REL REL_HWHEEL_HI_RES \<in> set caps \<longleftrightarrow>
         1 < hwheel_multiplier (drvdata s))"
    unfolding input_configured_calls by (intro exI conjI, rule refl) auto
next
  assume none: "\<forall>rep \<in> set (report_list (report_enum dev HID_FEATURE_REPORT)).
       \<forall>fld \<in> set (field rep). hid (usage fld) \<noteq> HID_GD_RESOLUTION_MULTIPLIER"
  have d: "discovery dev p =
        \<lparr>the_hdev = dev\<lparr>quirks := quirks dev OR HID_QUIRK_INPUT_PER_APP\<rparr>,
         drvdata = probe_context p, calls = [Hid_parse], sent = []\<rparr>"
    using none by (simp add: discovery_def hid_generic_fetch_resolution_multiplier_def
        fetch_reports_no_multiplier)
  show "wheel_multiplier (drvdata (discovery dev p)) = 1"
    "hwheel_multiplier (drvdata (discovery dev p)) = 1"
    "calls (snd (hid_generic_input_configured (discovery dev p) hidinput)) =
      calls (discovery dev p)"
    by (simp_all add: d input_configured_calls probe_context_def)
qed

theorem hid_generic_input_configured_advertises_witness:
  "hid_generic_input_configured hires_state \<lparr>input = 5\<rparr> =
     (0, hires_state\<lparr>drvdata := hires_context\<lparr>device := 5\<rparr>,
           calls := [Input_set_capability 5 EV_REL REL_WHEEL_HI_RES,
                     Input_set_capability 5 EV_REL REL_HWHEEL_HI_RES]\<rparr>) \<and>
   wheel_multiplier (drvdata (discovery plain_mouse 1)) = 1 \<and>
   hwheel_multiplier (drvdata (discovery plain_mouse 1)) = 1 \<and>
   calls (snd (hid_generic_input_configured (discovery plain_mouse 1) \<lparr>input = 5\<rparr>)) =
     [Hid_parse]"
proof -
  have none: "\<forall>rep \<in> set (report_list (report_enum plain_mouse HID_FEATURE_REPORT)).
       \<forall>fld \<in> set (field rep). hid (usage fld) \<noteq> HID_GD_RESOLUTION_MULTIPLIER"
    by (simp add: plain_mouse_def no_reports_def)
  have "calls (discovery plain_mouse 1) = [Hid_parse]"
    using none by (simp add: discovery_def hid_generic_fetch_resolution_multiplier_def
        fetch_reports_no_multiplier)
  then show ?thesis
    using none
      hid_generic_input_configured_advertises [of hires_state "\<lparr>input = 5\<rparr>" plain_mouse 1]
    by (simp add: input_configured_calls hires_state_def hires_context_def)
qed

subsection \<open>The multiplier activator\<close>

lemma report_index_Some:
  "report_index reps k = Some p \<Longrightarrow> p < length reps \<and> id_r (reps ! p) = k"
  by (induction reps arbitrary: p) (auto split: if_splits)

lemma report_index_update:
  "id_r rep' = id_r (reps ! p) \<Longrightarrow> p < length reps \<Longrightarrow>
   report_index (reps[p := rep']) k = report_index reps k"
proof (induction reps arbitrary: p)
  case Nil
  then show ?case by simp
next
  case (Cons r rs)
  then show ?case by (cases p) auto
qed

lemma set_slot_eq:
  "set_slot i s =
     (case slot_target s i of
        None \<Rightarrow> None
      | Some t \<Rightarrow>
          if slot_valid s i
          then Some ((with_feature_reports s (write_slot (feature_reports s) t))
                       \<lparr>calls := calls s @ [set_request (drvdata s) i],
                        sent := sent s @ [write_slot (feature_reports s) t ! fst t]\<rparr>)
          else None)"
  by (auto simp: set_slot_def slot_target_def slot_valid_def slot_field_def Let_def
      feature_reports_def with_feature_reports_def write_slot_def write_max_def
      value_index_def set_request_def report_id_hash_def
      dest: report_index_Some split: option.splits if_splits)

lemma set_slot_valid:
  "slot_valid s i \<Longrightarrow> set_slot i s = Some (after_slot i s)"
  by (auto simp: set_slot_eq after_slot_def sent_report_def slot_valid_def slot_field_def
      split: option.splits)

lemma set_slot_invalid:
  "\<not> slot_valid s i \<Longrightarrow> set_slot i s = None"
  by (auto simp: set_slot_eq split: option.splits)

lemma feature_reports_with [simp]:
  "feature_reports (with_feature_reports s reps) = reps"
  by (simp add: feature_reports_def with_feature_reports_def)

lemma after_slot_simps [simp]:
  "drvdata (after_slot i s) = drvdata s"
  "calls (after_slot i s) = calls s @ [set_request (drvdata s) i]"
  "sent (after_slot i s) = sent s @ [sent_report i s]"
  "feature_reports (after_slot i s) = write_slot (feature_reports s) (the (slot_target s i))"
  by (simp_all add: after_slot_def with_feature_reports_def feature_reports_def)

lemma slot_target_bound:
  "slot_target s i = Some (p, fi) \<Longrightarrow>
   p < length (feature_reports s) \<and> fi < length (field (feature_reports s ! p))"
  by (auto simp: slot_target_def report_id_hash_def feature_reports_def maxfield_def
      dest: report_index_Some split: option.splits if_splits)

lemma write_max_simps [simp]:
  "usage (write_max fld) = usage fld"
  "logical_maximum (write_max fld) = logical_maximum fld"
  "length (value_f (write_max fld)) = length (value_f fld)"
  "value_index (write_max fld) = value_index fld"
  by (simp_all add: write_max_def value_index_def)

lemma write_max_value:
  "value_index fld < length (value_f fld) \<Longrightarrow>
   value_f (write_max fld) ! value_index fld = logical_maximum fld"
  by (simp add: write_max_def)

lemma with_feature_reports_simps [simp]:
  "drvdata (with_feature_reports s reps) = drvdata s"
  "calls (with_feature_reports s reps) = calls s"
  "sent (with_feature_reports s reps) = sent s"
  by (simp_all add: with_feature_reports_def)

lemma slot_target_alt:
  "slot_target s i =
     (if unat (nth2 (report_id (drvdata s)) i) < HID_MAX_IDS then
        case report_index (feature_reports s) (nth2 (report_id (drvdata s)) i) of
          None \<Rightarrow> None
        | Some p \<Rightarrow>
            if maxfield (feature_reports s ! p) \<le> unat (nth2 (field_index (drvdata s)) i)
            then None else Some (p, unat (nth2 (field_index (drvdata s)) i))
      else None)"
  by (simp add: slot_target_def report_id_hash_def feature_reports_def)

lemma slot_target_write:
  assumes "p < length (feature_reports s)"
  shows "slot_target (with_feature_reports s (write_slot (feature_reports s) (p, fi))) j =
         slot_target s j"
proof -
  let ?reps = "feature_reports s"
  let ?rep' = "(?reps ! p)\<lparr>field := (field (?reps ! p))[fi := write_max (field (?reps ! p) ! fi)]\<rparr>"
  have w: "write_slot ?reps (p, fi) = ?reps[p := ?rep']"
    by (simp add: write_slot_def)
  have idx: "report_index (?reps[p := ?rep']) k = report_index ?reps k" for k
    using assms by (simp add: report_index_update)
  have len: "maxfield ((?reps[p := ?rep']) ! q) = maxfield (?reps ! q)" for q
    using assms by (cases "q = p") (simp_all add: maxfield_def)
  show ?thesis
    unfolding slot_target_alt feature_reports_with with_feature_reports_simps w idx len ..
qed

lemma slot_target_calls [simp]:
  "slot_target (s\<lparr>calls := cs\<rparr>) j = slot_target s j"
  "slot_target (s\<lparr>sent := rs\<rparr>) j = slot_target s j"
  by (simp_all add: slot_target_def feature_reports_def cong: option.case_cong if_cong)

lemma slot_target_after:
  "slot_valid s i \<Longrightarrow> slot_target (after_slot i s) j = slot_target s j"
proof -
  assume v: "slot_valid s i"
  then obtain p fi where t: "slot_target s i = Some (p, fi)"
    by (auto simp: slot_valid_def slot_field_def split: option.splits)
  then have "p < length (feature_reports s)"
    using slot_target_bound by blast
  then have "slot_target (with_feature_reports s (write_slot (feature_reports s) (p, fi))) j =
         slot_target s j"
    by (rule slot_target_write)
  then show ?thesis
    using t by (simp add: after_slot_def)
qed

lemma slot_field_after:
  assumes v: "slot_valid s i"
  shows "slot_field (after_slot i s) j =
     (case slot_field s j of
        None \<Rightarrow> None
      | Some fld \<Rightarrow>
          Some (if slot_target s j = slot_target s i then write_max fld else fld))"
proof -
  obtain p fi where t: "slot_target s i = Some (p, fi)"
    using v by (auto simp: slot_valid_def slot_field_def split: option.splits)
  have b: "p < length (feature_reports s)" "fi < length (field (feature_reports s ! p))"
    using slot_target_bound [OF t] by simp_all
  show ?thesis
  proof (cases "slot_target s j")
    case None
    then show ?thesis
      using slot_target_after [OF v, of j] by (simp add: slot_field_def)
  next
    case (Some u)
    obtain q fj where u: "u = (q, fj)" by (cases u)
    have bj: "q < length (feature_reports s)" "fj < length (field (feature_reports s ! q))"
      using slot_target_bound [of s j q fj] Some u by simp_all
    show ?thesis
      using slot_target_after [OF v, of j] Some u t b bj
      by (auto simp: slot_field_def write_slot_def nth_list_update)
  qed
qed

lemma slot_valid_after:
  "slot_valid s i \<Longrightarrow> slot_valid (after_slot i s) j = slot_valid s j"
  by (simp add: slot_valid_def slot_field_after split: option.splits)

lemma slot_at_max_after_self:
  "slot_valid s i \<Longrightarrow> slot_at_max (after_slot i s) i"
  by (auto simp: slot_at_max_def slot_valid_def slot_field_after write_max_value
      split: option.splits)

lemma slot_at_max_after_other:
  "slot_valid s i \<Longrightarrow> slot_valid s j \<Longrightarrow> slot_at_max s j \<Longrightarrow> slot_at_max (after_slot i s) j"
  by (auto simp: slot_at_max_def slot_valid_def slot_field_after write_max_value
      split: option.splits)

lemma after_slots_drvdata [simp]: "drvdata (after_slots is s) = drvdata s"
  by (induction "is" arbitrary: s) simp_all

lemma after_slots_calls:
  "calls (after_slots is s) = calls s @ map (set_request (drvdata s)) is"
  by (induction "is" arbitrary: s) simp_all

lemma after_slots_valid:
  "\<forall>i \<in> set is. slot_valid s i \<Longrightarrow> slot_valid (after_slots is s) j = slot_valid s j"
  by (induction "is" arbitrary: s) (simp_all add: slot_valid_after)

lemma after_slots_at_max_keep:
  "\<forall>i \<in> set is. slot_valid s i \<Longrightarrow> slot_valid s j \<Longrightarrow> slot_at_max s j \<Longrightarrow>
   slot_at_max (after_slots is s) j"
  by (induction "is" arbitrary: s) (simp_all add: slot_valid_after slot_at_max_after_other)

lemma after_slots_at_max:
  "\<forall>i \<in> set is. slot_valid s i \<Longrightarrow> j \<in> set is \<Longrightarrow> slot_at_max (after_slots is s) j"
proof (induction "is" arbitrary: s)
  case Nil
  then show ?case by simp
next
  case (Cons i "is")
  have v: "slot_valid s i" using Cons.prems by simp
  have rest: "\<forall>k \<in> set is. slot_valid (after_slot i s) k"
    using Cons.prems v by (simp add: slot_valid_after)
  show ?case
  proof (cases "j = i")
    case True
    then show ?thesis
      using v rest by (simp add: after_slots_at_max_keep slot_valid_after slot_at_max_after_self)
  next
    case False
    then show ?thesis
      using Cons.IH [OF rest] Cons.prems by simp
  qed
qed

lemma set_loop_valid:
  "\<forall>i \<in> set (takeWhile (occupied (drvdata s)) is). slot_valid s i \<Longrightarrow>
   set_loop is s = Some (after_slots (takeWhile (occupied (drvdata s)) is) s)"
proof (induction "is" arbitrary: s)
  case Nil
  then show ?case by simp
next
  case (Cons i "is")
  show ?case
  proof (cases "occupied (drvdata s) i")
    case False
    then show ?thesis by (simp add: occupied_def)
  next
    case True
    then have ne: "nth2 (report_id (drvdata s)) i \<noteq> - 1" by (simp add: occupied_def)
    have v: "slot_valid s i" using Cons.prems True by simp
    have "\<forall>k \<in> set (takeWhile (occupied (drvdata (after_slot i s))) is).
            slot_valid (after_slot i s) k"
      using Cons.prems True v by (simp add: slot_valid_after)
    from Cons.IH [OF this] show ?thesis
      using True v ne by (simp add: set_slot_valid)
  qed
qed

lemma set_loop_Some:
  "set_loop is s = Some s' \<Longrightarrow>
   \<forall>i \<in> set (takeWhile (occupied (drvdata s)) is). slot_valid s i"
proof (induction "is" arbitrary: s)
  case Nil
  then show ?case by simp
next
  case (Cons i "is")
  show ?case
  proof (cases "occupied (drvdata s) i")
    case False
    then show ?thesis by simp
  next
    case True
    then have ne: "nth2 (report_id (drvdata s)) i \<noteq> - 1" by (simp add: occupied_def)
    have v: "slot_valid s i"
    proof (rule ccontr)
      assume "\<not> slot_valid s i"
      then show False
        using Cons.prems ne by (simp add: set_slot_invalid)
    qed
    then have "set_loop is (after_slot i s) = Some s'"
      using Cons.prems ne by (simp add: set_slot_valid)
    from Cons.IH [OF this] show ?thesis
      using True v by (simp add: slot_valid_after)
  qed
qed

lemma takeWhile_prefix:
  "slots_prefix dev \<Longrightarrow> takeWhile (occupied dev) [0, 1] = occupied_slots dev"
  by (simp add: slots_prefix_def occupied_slots_def)

lemma slot_field_after_slots:
  "\<forall>i \<in> set is. slot_valid s i \<Longrightarrow> slot_field s j = Some fld \<Longrightarrow>
   \<exists>fld'. slot_field (after_slots is s) j = Some fld' \<and> fld' = fld\<lparr>value_f := value_f fld'\<rparr>"
proof (induction "is" arbitrary: s fld)
  case Nil
  then show ?case by simp
next
  case (Cons i "is")
  have v: "slot_valid s i" using Cons.prems by simp
  have rest: "\<forall>k \<in> set is. slot_valid (after_slot i s) k"
    using Cons.prems v by (simp add: slot_valid_after)
  obtain fld1 where f1: "slot_field (after_slot i s) j = Some fld1"
    and e1: "fld1 = fld\<lparr>value_f := value_f fld1\<rparr>"
    using Cons.prems(2) v by (auto simp: slot_field_after write_max_def)
  from Cons.IH [OF rest f1] obtain fld' where
    f': "slot_field (after_slots is (after_slot i s)) j = Some fld'"
    and e': "fld' = fld1\<lparr>value_f := value_f fld'\<rparr>"
    by blast
  have "fld' = fld\<lparr>value_f := value_f fld'\<rparr>"
    by (subst e', subst e1) simp
  then show ?case using f' by simp
qed

lemma set_multiplier_idle:
  "wheel_multiplier (drvdata s) = 1 \<and> hwheel_multiplier (drvdata s) = 1 \<Longrightarrow>
   hid_generic_set_resolution_multiplier s = Some s"
  by (simp add: hid_generic_set_resolution_multiplier_def)

lemma set_multiplier_active:
  "\<not> (wheel_multiplier (drvdata s) = 1 \<and> hwheel_multiplier (drvdata s) = 1) \<Longrightarrow>
   hid_generic_set_resolution_multiplier s = set_loop [0, 1] s"
  unfolding hid_generic_set_resolution_multiplier_def by (simp only: if_False)

lemma set_multiplier_run:
  assumes prefix: "slots_prefix (drvdata s)"
    and valid: "\<forall>i \<in> set (occupied_slots (drvdata s)). slot_valid s i"
    and active: "\<not> (wheel_multiplier (drvdata s) = 1 \<and> hwheel_multiplier (drvdata s) = 1)"
  shows "hid_generic_set_resolution_multiplier s =
           Some (after_slots (occupied_slots (drvdata s)) s)"
proof -
  have tw: "takeWhile (occupied (drvdata s)) [0, 1] = occupied_slots (drvdata s)"
    using prefix by (rule takeWhile_prefix)
  have "set_loop [0, 1] s = Some (after_slots (occupied_slots (drvdata s)) s)"
    using valid set_loop_valid [of s "[0, 1]"] unfolding tw by blast
  then show ?thesis
    by (simp only: set_multiplier_active [OF active])
qed

lemma slot_target_report:
  "slot_target s i = Some (p, fi) \<Longrightarrow>
   id_r (feature_reports s ! p) = nth2 (report_id (drvdata s)) i"
  by (auto simp: slot_target_alt dest: report_index_Some split: option.splits if_splits)

lemma write_max_id:
  assumes "value_f fld ! value_index fld = logical_maximum fld"
  shows "write_max fld = fld"
proof -
  have "(value_f fld)[value_index fld := logical_maximum fld] = value_f fld"
    using assms by (metis list_update_id)
  then show ?thesis by (simp add: write_max_def)
qed

lemma with_feature_reports_id: "with_feature_reports s (feature_reports s) = s"
  by (simp add: with_feature_reports_def feature_reports_def)

lemma after_slot_at_max_hdev:
  assumes v: "slot_valid s i" and m: "slot_at_max s i"
  shows "the_hdev (after_slot i s) = the_hdev s"
proof -
  obtain p fi where t: "slot_target s i = Some (p, fi)"
    using v by (auto simp: slot_valid_def slot_field_def split: option.splits)
  have f: "slot_field s i = Some (field (feature_reports s ! p) ! fi)"
    using t by (simp add: slot_field_def)
  have "write_max (field (feature_reports s ! p) ! fi) = field (feature_reports s ! p) ! fi"
    using m f by (simp add: slot_at_max_def write_max_id)
  then have "write_slot (feature_reports s) (p, fi) = feature_reports s"
    by (simp add: write_slot_def)
  then have "with_feature_reports s (write_slot (feature_reports s) (the (slot_target s i))) = s"
    using t by (simp add: with_feature_reports_id)
  then show ?thesis
    by (simp add: after_slot_def)
qed

lemma after_slots_at_max_hdev:
  "\<forall>i \<in> set is. slot_valid s i \<and> slot_at_max s i \<Longrightarrow>
   the_hdev (after_slots is s) = the_hdev s"
proof (induction "is" arbitrary: s)
  case Nil
  then show ?case by simp
next
  case (Cons i "is")
  have v: "slot_valid s i" and m: "slot_at_max s i" using Cons.prems by simp_all
  have "\<forall>k \<in> set is. slot_valid (after_slot i s) k \<and> slot_at_max (after_slot i s) k"
    using Cons.prems v by (simp add: slot_valid_after slot_at_max_after_other)
  from Cons.IH [OF this] show ?case
    using after_slot_at_max_hdev [OF v m] by simp
qed

text \<open>
  C2. \<^verbatim>\<open>hid_generic_set_resolution_multiplier\<close> returns at once, with the state as it
  was, when both multipliers are 1. Otherwise, where the slots are prefix-ordered and
  the occupied slots are valid, it returns; the device context is as it was; it has
  issued one configuration write request for each occupied slot, in the order of the
  slots, for the report that the slot names, which is the report that holds the field
  of the slot; and in the state it returns, the field of each occupied slot is the
  field as it was except for its values, and its value at the index of its usage is
  its logical maximum, not its physical maximum. Wherever the function returns, it has
  issued at most two requests and has left the device context as it was.
\<close>

theorem hid_generic_set_resolution_multiplier_writes:
  "(wheel_multiplier (drvdata s) = 1 \<and> hwheel_multiplier (drvdata s) = 1 \<longrightarrow>
      hid_generic_set_resolution_multiplier s = Some s) \<and>
   (\<not> (wheel_multiplier (drvdata s) = 1 \<and> hwheel_multiplier (drvdata s) = 1) \<and>
    slots_prefix (drvdata s) \<and>
    (\<forall>i \<in> set (occupied_slots (drvdata s)). slot_valid s i) \<longrightarrow>
      (\<exists>s'. hid_generic_set_resolution_multiplier s = Some s' \<and>
         drvdata s' = drvdata s \<and>
         calls s' = calls s @ map (set_request (drvdata s)) (occupied_slots (drvdata s)) \<and>
         length (occupied_slots (drvdata s)) \<le> 2 \<and>
         (\<forall>i \<in> set (occupied_slots (drvdata s)).
            \<exists>p fi fld fld'.
              slot_target s i = Some (p, fi) \<and>
              id_r (feature_reports s ! p) = nth2 (report_id (drvdata s)) i \<and>
              slot_field s i = Some fld \<and> slot_field s' i = Some fld' \<and>
              fld' = fld\<lparr>value_f := value_f fld'\<rparr> \<and>
              value_f fld' ! value_index fld = logical_maximum fld))) \<and>
   (hid_generic_set_resolution_multiplier s = Some t \<longrightarrow>
      drvdata t = drvdata s \<and>
      (\<exists>reqs. calls t = calls s @ reqs \<and> length reqs \<le> 2))"
proof (intro conjI impI)
  assume "wheel_multiplier (drvdata s) = 1 \<and> hwheel_multiplier (drvdata s) = 1"
  then show "hid_generic_set_resolution_multiplier s = Some s"
    by (rule set_multiplier_idle)
next
  assume a: "\<not> (wheel_multiplier (drvdata s) = 1 \<and> hwheel_multiplier (drvdata s) = 1) \<and>
    slots_prefix (drvdata s) \<and>
    (\<forall>i \<in> set (occupied_slots (drvdata s)). slot_valid s i)"
  let ?is = "occupied_slots (drvdata s)"
  let ?s' = "after_slots ?is s"
  have active: "\<not> (wheel_multiplier (drvdata s) = 1 \<and> hwheel_multiplier (drvdata s) = 1)"
    and prefix: "slots_prefix (drvdata s)"
    and valid: "\<forall>i \<in> set ?is. slot_valid s i"
    using a by blast+
  have run: "hid_generic_set_resolution_multiplier s = Some ?s'"
    using prefix valid active by (rule set_multiplier_run)
  have len: "length ?is \<le> 2"
    by (simp add: occupied_slots_def)
  have calls': "calls ?s' = calls s @ map (set_request (drvdata s)) ?is"
    by (rule after_slots_calls)
  have each: "\<exists>p fi fld fld'.
             slot_target s i = Some (p, fi) \<and>
             id_r (feature_reports s ! p) = nth2 (report_id (drvdata s)) i \<and>
             slot_field s i = Some fld \<and> slot_field ?s' i = Some fld' \<and>
             fld' = fld\<lparr>value_f := value_f fld'\<rparr> \<and>
             value_f fld' ! value_index fld = logical_maximum fld"
    if i: "i \<in> set ?is" for i
  proof -
    from valid i obtain fld where f: "slot_field s i = Some fld"
      by (auto simp: slot_valid_def split: option.splits)
    then obtain p fi where t: "slot_target s i = Some (p, fi)"
      by (auto simp: slot_field_def split: option.splits)
    have o: "id_r (feature_reports s ! p) = nth2 (report_id (drvdata s)) i"
      using t by (rule slot_target_report)
    from slot_field_after_slots [OF valid f] obtain fld' where
      f': "slot_field ?s' i = Some fld'" and e: "fld' = fld\<lparr>value_f := value_f fld'\<rparr>"
      by blast
    have "slot_at_max ?s' i"
      using valid i by (rule after_slots_at_max)
    then have m: "value_f fld' ! value_index fld' = logical_maximum fld'"
      using f' by (simp add: slot_at_max_def)
    have "value_index fld' = value_index fld" "logical_maximum fld' = logical_maximum fld"
      by (subst e, simp add: value_index_def)+
    then show ?thesis using t o f f' e m by simp
  qed
  show "\<exists>s'. hid_generic_set_resolution_multiplier s = Some s' \<and>
         drvdata s' = drvdata s \<and>
         calls s' = calls s @ map (set_request (drvdata s)) (occupied_slots (drvdata s)) \<and>
         length (occupied_slots (drvdata s)) \<le> 2 \<and>
         (\<forall>i \<in> set (occupied_slots (drvdata s)).
            \<exists>p fi fld fld'.
              slot_target s i = Some (p, fi) \<and>
              id_r (feature_reports s ! p) = nth2 (report_id (drvdata s)) i \<and>
              slot_field s i = Some fld \<and> slot_field s' i = Some fld' \<and>
              fld' = fld\<lparr>value_f := value_f fld'\<rparr> \<and>
              value_f fld' ! value_index fld = logical_maximum fld)"
    using run len calls' each by (intro exI [of _ ?s']) auto
next
  assume run: "hid_generic_set_resolution_multiplier s = Some t"
  have "drvdata t = drvdata s \<and> (\<exists>reqs. calls t = calls s @ reqs \<and> length reqs \<le> 2)"
  proof (cases "wheel_multiplier (drvdata s) = 1 \<and> hwheel_multiplier (drvdata s) = 1")
    case True
    then have "t = s" using run by (simp add: set_multiplier_idle)
    then show ?thesis by simp
  next
    case False
    let ?is = "takeWhile (occupied (drvdata s)) [0, 1]"
    have loop: "set_loop [0, 1] s = Some t"
      using run by (simp only: set_multiplier_active [OF False])
    have t: "t = after_slots ?is s"
      using loop set_loop_valid [OF set_loop_Some [OF loop]] by (simp only: option.inject)
    have "length ?is \<le> length [0 :: nat, 1]"
      by (rule length_takeWhile_le)
    then have "length (map (set_request (drvdata s)) ?is) \<le> 2"
      by simp
    moreover have "calls t = calls s @ map (set_request (drvdata s)) ?is"
      unfolding t by (rule after_slots_calls)
    moreover have "drvdata t = drvdata s"
      unfolding t by (rule after_slots_drvdata)
    ultimately show ?thesis by blast
  qed
  then show "drvdata t = drvdata s" "\<exists>reqs. calls t = calls s @ reqs \<and> length reqs \<le> 2"
    by blast+
qed

theorem hid_generic_set_resolution_multiplier_writes_witness:
  "hid_generic_set_resolution_multiplier plain_state = Some plain_state \<and>
   (\<exists>s'. hid_generic_set_resolution_multiplier hires_state = Some s' \<and>
      drvdata s' = hires_context \<and>
      calls s' = [Hid_hw_request HID_FEATURE_REPORT 23 HID_REQ_SET_REPORT,
                  Hid_hw_request HID_FEATURE_REPORT 23 HID_REQ_SET_REPORT] \<and>
      (\<exists>fld'. slot_field s' 0 = Some fld' \<and> value_f fld' ! 0 = 1 \<and>
                physical_maximum fld' = 8) \<and>
      (\<exists>fld'. slot_field s' 1 = Some fld' \<and> value_f fld' ! 0 = 1 \<and>
                physical_maximum fld' = 4))"
proof -
  note writes = hid_generic_set_resolution_multiplier_writes
  have idle: "wheel_multiplier (drvdata plain_state) = 1 \<and>
              hwheel_multiplier (drvdata plain_state) = 1"
    by (simp add: plain_state_def)
  have d: "drvdata hires_state = hires_context" "calls hires_state = []"
    by (simp_all add: hires_state_def)
  have active: "\<not> (wheel_multiplier (drvdata hires_state) = 1 \<and>
                    hwheel_multiplier (drvdata hires_state) = 1)"
    by (simp add: d hires_context_def)
  have prefix: "slots_prefix (drvdata hires_state)"
    by (simp add: d slots_prefix_def occupied_def hires_context_def nth2_def)
  have valid: "\<forall>i \<in> set (occupied_slots (drvdata hires_state)). slot_valid hires_state i"
    using hires_valid by (simp add: d hires_slots)
  have pre: "\<not> (wheel_multiplier (drvdata hires_state) = 1 \<and>
                 hwheel_multiplier (drvdata hires_state) = 1) \<and>
             slots_prefix (drvdata hires_state) \<and>
             (\<forall>i \<in> set (occupied_slots (drvdata hires_state)). slot_valid hires_state i)"
    using active prefix valid by (intro conjI)
  from writes [of hires_state, THEN conjunct2, THEN conjunct1, THEN mp, OF pre]
  obtain s' where s': "hid_generic_set_resolution_multiplier hires_state = Some s' \<and>
         drvdata s' = drvdata hires_state \<and>
         calls s' = calls hires_state @
           map (set_request (drvdata hires_state)) (occupied_slots (drvdata hires_state)) \<and>
         length (occupied_slots (drvdata hires_state)) \<le> 2 \<and>
         (\<forall>i \<in> set (occupied_slots (drvdata hires_state)).
            \<exists>p fi fld fld'.
              slot_target hires_state i = Some (p, fi) \<and>
              id_r (feature_reports hires_state ! p) = nth2 (report_id (drvdata hires_state)) i \<and>
              slot_field hires_state i = Some fld \<and> slot_field s' i = Some fld' \<and>
              fld' = fld\<lparr>value_f := value_f fld'\<rparr> \<and>
              value_f fld' ! value_index fld = logical_maximum fld)"
    ..
  note run = s' [THEN conjunct1]
  note ctx = s' [THEN conjunct2, THEN conjunct1]
  note cs = s' [THEN conjunct2, THEN conjunct2, THEN conjunct1]
  note each = s' [THEN conjunct2, THEN conjunct2, THEN conjunct2, THEN conjunct2]
  have in0: "0 \<in> set (occupied_slots (drvdata hires_state))"
    and in1: "1 \<in> set (occupied_slots (drvdata hires_state))"
    unfolding d hires_slots by simp_all
  from each [rule_format, OF in0] hires_fields obtain f0 where
    f0: "slot_field s' 0 = Some f0" "f0 = wheel_multiplier_field\<lparr>value_f := value_f f0\<rparr>"
      "value_f f0 ! value_index wheel_multiplier_field = logical_maximum wheel_multiplier_field"
    by auto
  from each [rule_format, OF in1] hires_fields obtain f1 where
    f1: "slot_field s' 1 = Some f1" "f1 = pan_multiplier_field\<lparr>value_f := value_f f1\<rparr>"
      "value_f f1 ! value_index pan_multiplier_field = logical_maximum pan_multiplier_field"
    by auto
  have p0: "physical_maximum f0 = 8"
    by (subst f0(2)) (simp add: wheel_multiplier_field_def)
  have p1: "physical_maximum f1 = 4"
    by (subst f1(2)) (simp add: pan_multiplier_field_def)
  have v0: "value_f f0 ! 0 = 1"
    using f0(3) by (simp add: value_index_def wheel_multiplier_field_def)
  have v1: "value_f f1 ! 0 = 1"
    using f1(3) by (simp add: value_index_def pan_multiplier_field_def)
  have cs': "calls s' = [Hid_hw_request HID_FEATURE_REPORT 23 HID_REQ_SET_REPORT,
                  Hid_hw_request HID_FEATURE_REPORT 23 HID_REQ_SET_REPORT]"
    unfolding cs d hires_slots by (simp add: set_request_def hires_context_def nth2_def)
  have idle': "hid_generic_set_resolution_multiplier plain_state = Some plain_state"
    using writes [of plain_state, THEN conjunct1, THEN mp, OF idle] .
  have ctx': "drvdata s' = hires_context"
    using ctx d by simp
  show ?thesis
    using idle' run ctx' cs' f0(1) f1(1) p0 p1 v0 v1 by blast
qed

lemma event_keeps_context:
  "drvdata (snd (hid_generic_event s fld usg val)) = drvdata s"
  by (simp add: hid_generic_event_def Let_def)

lemma sent_report_id:
  assumes v: "slot_valid s i"
  shows "id_r (sent_report i s) = nth2 (report_id (drvdata s)) i"
proof -
  obtain p fi where t: "slot_target s i = Some (p, fi)"
    using v by (auto simp: slot_valid_def slot_field_def split: option.splits)
  have b: "p < length (feature_reports s)"
    using slot_target_bound [OF t] by simp
  have "id_r (sent_report i s) = id_r (feature_reports s ! p)"
    using t b by (simp add: sent_report_def write_slot_def)
  then show ?thesis
    using slot_target_report [OF t] by simp
qed

lemma sent_report_carries:
  assumes v: "slot_valid s i"
  shows "carries_max s i (sent_report i s)"
proof -
  obtain p fi where t: "slot_target s i = Some (p, fi)"
    using v by (auto simp: slot_valid_def slot_field_def split: option.splits)
  let ?fld = "field (feature_reports s ! p) ! fi"
  have b: "p < length (feature_reports s)" "fi < length (field (feature_reports s ! p))"
    using slot_target_bound [OF t] by simp_all
  have len: "value_index ?fld < length (value_f ?fld)"
    using v t by (simp add: slot_valid_def slot_field_def)
  have f: "field (sent_report i s) = (field (feature_reports s ! p))[fi := write_max ?fld]"
    using t b by (simp add: sent_report_def write_slot_def)
  show ?thesis
    using t b len by (simp add: carries_max_def f maxfield_def write_max_value)
qed

lemma carries_max_after:
  "slot_valid s i \<Longrightarrow> carries_max (after_slot i s) = carries_max s"
  by (intro ext) (simp add: carries_max_def slot_target_after)

lemma carries_max_after_slots:
  "\<forall>i \<in> set is. slot_valid s i \<Longrightarrow> carries_max (after_slots is s) = carries_max s"
  by (induction "is" arbitrary: s) (simp_all add: slot_valid_after carries_max_after)

lemma slot_report_carries:
  assumes v: "slot_valid s i" and m: "slot_at_max s i"
  shows "carries_max s i (slot_report s i)"
proof -
  obtain p fi where t: "slot_target s i = Some (p, fi)"
    using v by (auto simp: slot_valid_def slot_field_def split: option.splits)
  have b: "fi < length (field (feature_reports s ! p))"
    using slot_target_bound [OF t] by simp
  show ?thesis
    using v m t b
    by (simp add: carries_max_def slot_report_def slot_valid_def slot_at_max_def
        slot_field_def maxfield_def)
qed

lemma after_slots_sent_ids:
  "\<forall>i \<in> set is. slot_valid s i \<Longrightarrow>
   \<exists>rs. sent (after_slots is s) = sent s @ rs \<and>
        map id_r rs = map (nth2 (report_id (drvdata s))) is \<and>
        list_all2 (carries_max s) is rs"
proof (induction "is" arbitrary: s)
  case Nil
  then show ?case by simp
next
  case (Cons i "is")
  have v: "slot_valid s i" using Cons.prems by simp
  have rest: "\<forall>k \<in> set is. slot_valid (after_slot i s) k"
    using Cons.prems v by (simp add: slot_valid_after)
  from Cons.IH [OF rest] obtain rs where
    rs: "sent (after_slots is (after_slot i s)) = sent (after_slot i s) @ rs"
      "map id_r rs = map (nth2 (report_id (drvdata (after_slot i s)))) is"
      "list_all2 (carries_max (after_slot i s)) is rs"
    by blast
  have "list_all2 (carries_max s) is rs"
    using rs(3) unfolding carries_max_after [OF v] .
  then show ?case
    using rs(1, 2) sent_report_id [OF v] sent_report_carries [OF v]
    by (intro exI [of _ "sent_report i s # rs"]) simp
qed

lemma sent_report_at_max:
  assumes v: "slot_valid s i" and m: "slot_at_max s i"
  shows "sent_report i s = slot_report s i"
proof -
  obtain p fi where t: "slot_target s i = Some (p, fi)"
    using v by (auto simp: slot_valid_def slot_field_def split: option.splits)
  have f: "slot_field s i = Some (field (feature_reports s ! p) ! fi)"
    using t by (simp add: slot_field_def)
  have "write_max (field (feature_reports s ! p) ! fi) = field (feature_reports s ! p) ! fi"
    using m f by (simp add: slot_at_max_def write_max_id)
  then have "write_slot (feature_reports s) (p, fi) = feature_reports s"
    by (simp add: write_slot_def)
  then show ?thesis
    using t by (simp add: sent_report_def slot_report_def)
qed

lemma slot_report_cong:
  "the_hdev t = the_hdev s \<Longrightarrow> drvdata t = drvdata s \<Longrightarrow> slot_report t i = slot_report s i"
  by (simp add: slot_report_def slot_target_def feature_reports_def
      cong: option.case_cong if_cong)

lemma after_slots_sent_at_max:
  "\<forall>i \<in> set is. slot_valid s i \<and> slot_at_max s i \<Longrightarrow>
   sent (after_slots is s) = sent s @ map (slot_report s) is"
proof (induction "is" arbitrary: s)
  case Nil
  then show ?case by simp
next
  case (Cons i "is")
  have v: "slot_valid s i" and m: "slot_at_max s i" using Cons.prems by simp_all
  have rest: "\<forall>k \<in> set is. slot_valid (after_slot i s) k \<and> slot_at_max (after_slot i s) k"
    using Cons.prems v by (simp add: slot_valid_after slot_at_max_after_other)
  have same: "slot_report (after_slot i s) k = slot_report s k" for k
    using after_slot_at_max_hdev [OF v m] by (rule slot_report_cong) simp
  show ?case
    using Cons.IH [OF rest] sent_report_at_max [OF v m] by (simp add: same)
qed

text \<open>
  What an activation does to a state in which the slots it visits are valid and hold
  their logical maximum: nothing but the requests.
\<close>

lemma set_multiplier_settled:
  assumes active: "\<not> (wheel_multiplier (drvdata s) = 1 \<and> hwheel_multiplier (drvdata s) = 1)"
    and settled: "\<forall>i \<in> set (takeWhile (occupied (drvdata s)) [0, 1]).
                    slot_valid s i \<and> slot_at_max s i"
  shows "\<exists>t. hid_generic_set_resolution_multiplier s = Some t \<and>
           the_hdev t = the_hdev s \<and> drvdata t = drvdata s \<and>
           calls t = calls s @
             map (set_request (drvdata s)) (takeWhile (occupied (drvdata s)) [0, 1]) \<and>
           sent t = sent s @ map (slot_report s) (takeWhile (occupied (drvdata s)) [0, 1]) \<and>
           (\<forall>i \<in> set (takeWhile (occupied (drvdata s)) [0, 1]).
              slot_valid t i \<and> slot_at_max t i)"
proof -
  define js where "js = takeWhile (occupied (drvdata s)) [0, 1]"
  have st: "\<forall>i \<in> set js. slot_valid s i \<and> slot_at_max s i"
    using settled unfolding js_def .
  then have valid: "\<forall>i \<in> set js. slot_valid s i"
    by blast
  then have valid': "\<forall>i \<in> set (takeWhile (occupied (drvdata s)) [0, 1]). slot_valid s i"
    unfolding js_def .
  have run: "hid_generic_set_resolution_multiplier s = Some (after_slots js s)"
    using set_loop_valid [OF valid'] unfolding set_multiplier_active [OF active] js_def .
  have h: "the_hdev (after_slots js s) = the_hdev s"
    using st by (rule after_slots_at_max_hdev)
  have d: "drvdata (after_slots js s) = drvdata s"
    by (rule after_slots_drvdata)
  have c: "calls (after_slots js s) = calls s @ map (set_request (drvdata s)) js"
    by (rule after_slots_calls)
  have r: "sent (after_slots js s) = sent s @ map (slot_report s) js"
    using st by (rule after_slots_sent_at_max)
  have k: "\<forall>i \<in> set js. slot_valid (after_slots js s) i \<and> slot_at_max (after_slots js s) i"
  proof
    fix i
    assume i: "i \<in> set js"
    have "slot_valid (after_slots js s) i"
      using valid i by (simp add: after_slots_valid)
    moreover have "slot_at_max (after_slots js s) i"
      using valid i by (rule after_slots_at_max)
    ultimately show "slot_valid (after_slots js s) i \<and> slot_at_max (after_slots js s) i" ..
  qed
  show ?thesis
    unfolding js_def [symmetric]
    by (intro exI [of _ "after_slots js s"] conjI) (rule run h d c r k)+
qed

text \<open>
  C7, as the code has it. When an activation returns, the two activations that follow
  it return too. All three issue the same sequence of calls of \<^verbatim>\<open>hid_hw_request\<close>:
  the same reports, by their ids, with the same request type, in the same order. All
  three leave the device context as it was. The requests are those for the slots that
  the activation visits, and the report that a request passes holds the logical maximum
  in the field of the slot of the request: the field is written before the request is
  made. The second and the third activation change no value of a field, and they pass
  the reports with the same contents: from the second activation on, the sequence of
  the write requests is the same every time. The first activation passes reports of the
  same ids in the same order, whose contents can differ in the other fields. The
  translation of an event leaves the device context as it was.
\<close>

theorem activation_repeats:
  "(hid_generic_set_resolution_multiplier s = Some s1 \<longrightarrow>
      (\<exists>s2 s3 reqs first reps.
         hid_generic_set_resolution_multiplier s1 = Some s2 \<and>
         hid_generic_set_resolution_multiplier s2 = Some s3 \<and>
         calls s1 = calls s @ reqs \<and> calls s2 = calls s1 @ reqs \<and>
         calls s3 = calls s2 @ reqs \<and>
         sent s1 = sent s @ first \<and> sent s2 = sent s1 @ reps \<and>
         sent s3 = sent s2 @ reps \<and>
         map id_r first = map id_r reps \<and> length reps = length reqs \<and>
         drvdata s1 = drvdata s \<and> drvdata s2 = drvdata s \<and> drvdata s3 = drvdata s \<and>
         the_hdev s2 = the_hdev s1 \<and> the_hdev s3 = the_hdev s1 \<and>
         reqs = map (set_request (drvdata s)) (visited_slots (drvdata s)) \<and>
         list_all2 (carries_max s) (visited_slots (drvdata s)) first \<and>
         list_all2 (carries_max s) (visited_slots (drvdata s)) reps)) \<and>
   drvdata (snd (hid_generic_event s fld usg val)) = drvdata s"
proof (intro conjI impI)
  assume run: "hid_generic_set_resolution_multiplier s = Some s1"
  show "\<exists>s2 s3 reqs first reps.
         hid_generic_set_resolution_multiplier s1 = Some s2 \<and>
         hid_generic_set_resolution_multiplier s2 = Some s3 \<and>
         calls s1 = calls s @ reqs \<and> calls s2 = calls s1 @ reqs \<and>
         calls s3 = calls s2 @ reqs \<and>
         sent s1 = sent s @ first \<and> sent s2 = sent s1 @ reps \<and>
         sent s3 = sent s2 @ reps \<and>
         map id_r first = map id_r reps \<and> length reps = length reqs \<and>
         drvdata s1 = drvdata s \<and> drvdata s2 = drvdata s \<and> drvdata s3 = drvdata s \<and>
         the_hdev s2 = the_hdev s1 \<and> the_hdev s3 = the_hdev s1 \<and>
         reqs = map (set_request (drvdata s)) (visited_slots (drvdata s)) \<and>
         list_all2 (carries_max s) (visited_slots (drvdata s)) first \<and>
         list_all2 (carries_max s) (visited_slots (drvdata s)) reps"
  proof (cases "wheel_multiplier (drvdata s) = 1 \<and> hwheel_multiplier (drvdata s) = 1")
    case True
    then have "s1 = s" using run by (simp add: set_multiplier_idle)
    then show ?thesis
      using run True by (intro exI [of _ s] exI [of _ "[]"]) (simp add: visited_slots_def)
  next
    case False
    define js where "js = takeWhile (occupied (drvdata s)) [0, 1]"
    define reqs where "reqs = map (set_request (drvdata s)) js"
    define reps where "reps = map (slot_report s1) js"
    have loop: "set_loop [0, 1] s = Some s1"
      using run by (simp only: set_multiplier_active [OF False])
    have valid: "\<forall>i \<in> set js. slot_valid s i"
      unfolding js_def using loop by (rule set_loop_Some)
    have "Some s1 = Some (after_slots js s)"
      unfolding js_def using loop set_loop_valid [OF set_loop_Some [OF loop]] by (simp only:)
    then have s1: "s1 = after_slots js s"
      by (simp only: option.inject)
    have d: "drvdata s1 = drvdata s"
      unfolding s1 by (rule after_slots_drvdata)
    have c1: "calls s1 = calls s @ reqs"
      unfolding s1 reqs_def by (rule after_slots_calls)
    have vs: "visited_slots (drvdata s) = js"
      using False unfolding js_def visited_slots_def by (simp only: if_False)
    from after_slots_sent_ids [OF valid] obtain first where
      r1: "sent s1 = sent s @ first"
      and i1: "map id_r first = map (nth2 (report_id (drvdata s))) js"
      and k1: "list_all2 (carries_max s) js first"
      unfolding s1 by blast
    have v1: "\<forall>i \<in> set js. slot_valid s1 i"
      using valid unfolding s1 after_slots_valid [OF valid] .
    have m1: "\<forall>i \<in> set js. slot_at_max s1 i"
      unfolding s1
    proof
      fix i
      assume "i \<in> set js"
      with valid show "slot_at_max (after_slots js s) i"
        by (rule after_slots_at_max)
    qed
    have active1: "\<not> (wheel_multiplier (drvdata s1) = 1 \<and> hwheel_multiplier (drvdata s1) = 1)"
      using False unfolding d .
    have "\<forall>i \<in> set js. slot_valid s1 i \<and> slot_at_max s1 i"
      using v1 m1 by blast
    then have settled1: "\<forall>i \<in> set (takeWhile (occupied (drvdata s1)) [0, 1]).
                           slot_valid s1 i \<and> slot_at_max s1 i"
      unfolding d js_def .
    from set_multiplier_settled [OF active1 settled1] obtain s2 where
      two: "hid_generic_set_resolution_multiplier s1 = Some s2 \<and>
           the_hdev s2 = the_hdev s1 \<and> drvdata s2 = drvdata s1 \<and>
           calls s2 = calls s1 @
             map (set_request (drvdata s1)) (takeWhile (occupied (drvdata s1)) [0, 1]) \<and>
           sent s2 = sent s1 @ map (slot_report s1) (takeWhile (occupied (drvdata s1)) [0, 1]) \<and>
           (\<forall>i \<in> set (takeWhile (occupied (drvdata s1)) [0, 1]).
              slot_valid s2 i \<and> slot_at_max s2 i)"
      ..
    note run2 = two [THEN conjunct1]
    note h2 = two [THEN conjunct2, THEN conjunct1]
    note d2a = two [THEN conjunct2, THEN conjunct2, THEN conjunct1]
    have d2: "drvdata s2 = drvdata s"
      using d2a d by simp
    have c2: "calls s2 = calls s1 @ reqs"
      using two [THEN conjunct2, THEN conjunct2, THEN conjunct2, THEN conjunct1]
      unfolding d js_def [symmetric] reqs_def [symmetric] .
    have r2: "sent s2 = sent s1 @ reps"
      using two [THEN conjunct2, THEN conjunct2, THEN conjunct2, THEN conjunct2,
        THEN conjunct1]
      unfolding d js_def [symmetric] reps_def [symmetric] .
    have settled2: "\<forall>i \<in> set (takeWhile (occupied (drvdata s2)) [0, 1]).
                           slot_valid s2 i \<and> slot_at_max s2 i"
      using two [THEN conjunct2, THEN conjunct2, THEN conjunct2, THEN conjunct2,
        THEN conjunct2]
      unfolding d2a .
    have active2: "\<not> (wheel_multiplier (drvdata s2) = 1 \<and> hwheel_multiplier (drvdata s2) = 1)"
      using False unfolding d2 .
    from set_multiplier_settled [OF active2 settled2] obtain s3 where
      three: "hid_generic_set_resolution_multiplier s2 = Some s3 \<and>
           the_hdev s3 = the_hdev s2 \<and> drvdata s3 = drvdata s2 \<and>
           calls s3 = calls s2 @
             map (set_request (drvdata s2)) (takeWhile (occupied (drvdata s2)) [0, 1]) \<and>
           sent s3 = sent s2 @
             map (slot_report s2) (takeWhile (occupied (drvdata s2)) [0, 1]) \<and>
           (\<forall>i \<in> set (takeWhile (occupied (drvdata s2)) [0, 1]).
              slot_valid s3 i \<and> slot_at_max s3 i)"
      ..
    note run3 = three [THEN conjunct1]
    have h3: "the_hdev s3 = the_hdev s1"
      using three [THEN conjunct2, THEN conjunct1] h2 by simp
    have d3: "drvdata s3 = drvdata s"
      using three [THEN conjunct2, THEN conjunct2, THEN conjunct1] d2 by simp
    have c3: "calls s3 = calls s2 @ reqs"
      using three [THEN conjunct2, THEN conjunct2, THEN conjunct2, THEN conjunct1]
      unfolding d2 js_def [symmetric] reqs_def [symmetric] .
    have "slot_report s2 i = slot_report s1 i" for i
      using h2 d2a by (rule slot_report_cong)
    then have same: "map (slot_report s2) js = map (slot_report s1) js"
      by simp
    have r3: "sent s3 = sent s2 @ reps"
      using three [THEN conjunct2, THEN conjunct2, THEN conjunct2, THEN conjunct2,
        THEN conjunct1]
      unfolding d2 js_def [symmetric] same reps_def [symmetric] .
    from after_slots_sent_ids [OF v1] obtain rs where
      rs: "sent (after_slots js s1) = sent s1 @ rs"
      and irs: "map id_r rs = map (nth2 (report_id (drvdata s1))) js"
      by blast
    have v1a: "\<forall>i \<in> set (takeWhile (occupied (drvdata s1)) [0, 1]). slot_valid s1 i"
      using v1 unfolding d js_def .
    have "hid_generic_set_resolution_multiplier s1 = Some (after_slots js s1)"
      using set_loop_valid [OF v1a] unfolding set_multiplier_active [OF active1] d js_def .
    then have "s2 = after_slots js s1"
      using run2 by simp
    then have "sent s2 = sent s1 @ rs"
      using rs by simp
    then have "rs = reps"
      using r2 by simp
    then have i2: "map id_r first = map id_r reps"
      using i1 irs d by simp
    have len: "length reps = length reqs"
      by (simp add: reps_def reqs_def)
    have q: "reqs = map (set_request (drvdata s)) (visited_slots (drvdata s))"
      unfolding vs reqs_def ..
    have k1a: "list_all2 (carries_max s) (visited_slots (drvdata s)) first"
      using k1 unfolding vs .
    have "\<forall>i \<in> set js. carries_max s1 i (slot_report s1 i)"
      using v1 m1 by (simp add: slot_report_carries)
    then have "list_all2 (carries_max s1) js reps"
      by (simp add: reps_def list_all2_map2 list_all2_same)
    then have k2: "list_all2 (carries_max s) (visited_slots (drvdata s)) reps"
      unfolding vs s1 carries_max_after_slots [OF valid] .
    show ?thesis
      by (intro exI [of _ s2] exI [of _ s3] exI [of _ reqs] exI [of _ first]
          exI [of _ reps] conjI)
        (rule run2 run3 c1 c2 c3 r1 r2 r3 i2 len d d2 d3 h2 h3 q k1a k2)+
  qed
next
  show "drvdata (snd (hid_generic_event s fld usg val)) = drvdata s"
    by (rule event_keeps_context)
qed

text \<open>
  C7, as it is stated, fails. On the mouse whose two multipliers are fields of the
  feature report 23, both with the value 0, the first activation passes the report
  with the values 1 and 0, then with 1 and 1: its first request is made before the
  field of the second slot is written. The second activation passes the report with 1
  and 1 both times. The two sequences of write requests differ in their first request.
\<close>

theorem activation_counterexample:
  "map_option sent (hid_generic_set_resolution_multiplier hires_state) =
     Some [report_23 1 0, report_23 1 1] \<and>
   map_option sent
     (Option.bind (hid_generic_set_resolution_multiplier hires_state)
        hid_generic_set_resolution_multiplier) =
     Some [report_23 1 0, report_23 1 1, report_23 1 1, report_23 1 1] \<and>
   report_23 1 0 \<noteq> report_23 1 1"
  by (simp add: hid_generic_set_resolution_multiplier_def set_slot_def Let_def
      report_id_hash_def hires_state_def hires_context_def nth2_def HID_MAX_IDS_def
      maxfield_def hires_mouse_def wheel_multiplier_field_def pan_multiplier_field_def
      report_23_def no_reports_def)

theorem activation_repeats_witness:
  "\<exists>s1 s2 s3.
      hid_generic_set_resolution_multiplier hires_state = Some s1 \<and>
      hid_generic_set_resolution_multiplier s1 = Some s2 \<and>
      hid_generic_set_resolution_multiplier s2 = Some s3 \<and>
      calls s1 = [Hid_hw_request HID_FEATURE_REPORT 23 HID_REQ_SET_REPORT,
                  Hid_hw_request HID_FEATURE_REPORT 23 HID_REQ_SET_REPORT] \<and>
      calls s2 = calls s1 @ calls s1 \<and> calls s3 = calls s2 @ calls s1 \<and>
      sent s1 = [report_23 1 0, report_23 1 1] \<and>
      sent s2 = sent s1 @ [report_23 1 1, report_23 1 1] \<and>
      sent s3 = sent s2 @ [report_23 1 1, report_23 1 1] \<and>
      drvdata s1 = hires_context \<and> drvdata s2 = hires_context \<and>
      drvdata s3 = hires_context \<and>
      the_hdev s2 = the_hdev s1 \<and> the_hdev s3 = the_hdev s1 \<and>
      drvdata (snd (hid_generic_event hires_state wheel_field (usage wheel_field) 3)) =
        hires_context"
proof -
  have d: "drvdata hires_state = hires_context" "calls hires_state = []"
    "sent hires_state = []"
    by (simp_all add: hires_state_def)
  have active: "\<not> (wheel_multiplier (drvdata hires_state) = 1 \<and>
                    hwheel_multiplier (drvdata hires_state) = 1)"
    by (simp add: d hires_context_def)
  have prefix: "slots_prefix (drvdata hires_state)"
    by (simp add: d slots_prefix_def occupied_def hires_context_def nth2_def)
  have valid: "\<forall>i \<in> set (occupied_slots (drvdata hires_state)). slot_valid hires_state i"
    using hires_valid by (simp add: d hires_slots)
  define s1 where "s1 = after_slots [0, 1] hires_state"
  have run: "hid_generic_set_resolution_multiplier hires_state = Some s1"
    using set_multiplier_run [OF prefix valid active] unfolding d hires_slots s1_def .
  have cs: "calls s1 = [Hid_hw_request HID_FEATURE_REPORT 23 HID_REQ_SET_REPORT,
                  Hid_hw_request HID_FEATURE_REPORT 23 HID_REQ_SET_REPORT]"
    unfolding s1_def after_slots_calls d
    by (simp add: set_request_def hires_context_def nth2_def)
  have "map_option sent (hid_generic_set_resolution_multiplier hires_state) =
     Some [report_23 1 0, report_23 1 1]"
    by (simp add: hid_generic_set_resolution_multiplier_def set_slot_def Let_def
      report_id_hash_def hires_state_def hires_context_def nth2_def HID_MAX_IDS_def
      maxfield_def hires_mouse_def wheel_multiplier_field_def pan_multiplier_field_def
      report_23_def no_reports_def)
  then have rs: "sent s1 = [report_23 1 0, report_23 1 1]"
    unfolding run by simp
  have "map_option sent
     (Option.bind (hid_generic_set_resolution_multiplier hires_state)
        hid_generic_set_resolution_multiplier) =
     Some [report_23 1 0, report_23 1 1, report_23 1 1, report_23 1 1]"
    by (simp add: hid_generic_set_resolution_multiplier_def set_slot_def Let_def
      report_id_hash_def hires_state_def hires_context_def nth2_def HID_MAX_IDS_def
      maxfield_def hires_mouse_def wheel_multiplier_field_def pan_multiplier_field_def
      report_23_def no_reports_def)
  then have rs2: "map_option sent (hid_generic_set_resolution_multiplier s1) =
     Some [report_23 1 0, report_23 1 1, report_23 1 1, report_23 1 1]"
    unfolding run by simp
  note rep = activation_repeats [of hires_state s1 wheel_field "usage wheel_field" 3]
  from rep [THEN conjunct1, THEN mp, OF run] obtain s2 s3 reqs first reps where
    all: "hid_generic_set_resolution_multiplier s1 = Some s2 \<and>
         hid_generic_set_resolution_multiplier s2 = Some s3 \<and>
         calls s1 = calls hires_state @ reqs \<and> calls s2 = calls s1 @ reqs \<and>
         calls s3 = calls s2 @ reqs \<and>
         sent s1 = sent hires_state @ first \<and> sent s2 = sent s1 @ reps \<and>
         sent s3 = sent s2 @ reps \<and>
         map id_r first = map id_r reps \<and> length reps = length reqs \<and>
         drvdata s1 = drvdata hires_state \<and> drvdata s2 = drvdata hires_state \<and>
         drvdata s3 = drvdata hires_state \<and>
         the_hdev s2 = the_hdev s1 \<and> the_hdev s3 = the_hdev s1 \<and>
         reqs = map (set_request (drvdata hires_state)) (visited_slots (drvdata hires_state)) \<and>
         list_all2 (carries_max hires_state) (visited_slots (drvdata hires_state)) first \<and>
         list_all2 (carries_max hires_state) (visited_slots (drvdata hires_state)) reps"
    by (elim exE)
  note run2 = all [THEN conjunct1]
  note run3 = all [THEN conjunct2, THEN conjunct1]
  note c1 = all [THEN conjunct2, THEN conjunct2, THEN conjunct1]
  note c2 = all [THEN conjunct2, THEN conjunct2, THEN conjunct2, THEN conjunct1]
  note c3 = all [THEN conjunct2, THEN conjunct2, THEN conjunct2, THEN conjunct2,
    THEN conjunct1]
  note rest = all [THEN conjunct2, THEN conjunct2, THEN conjunct2, THEN conjunct2,
    THEN conjunct2]
  note r2 = rest [THEN conjunct2, THEN conjunct1]
  note r3 = rest [THEN conjunct2, THEN conjunct2, THEN conjunct1]
  note rest2 = rest [THEN conjunct2, THEN conjunct2, THEN conjunct2, THEN conjunct2,
    THEN conjunct2]
  note d1 = rest2 [THEN conjunct1]
  note d2 = rest2 [THEN conjunct2, THEN conjunct1]
  note d3 = rest2 [THEN conjunct2, THEN conjunct2, THEN conjunct1]
  note h2 = rest2 [THEN conjunct2, THEN conjunct2, THEN conjunct2, THEN conjunct1]
  note h3 = rest2 [THEN conjunct2, THEN conjunct2, THEN conjunct2, THEN conjunct2,
    THEN conjunct1]
  note ev = rep [THEN conjunct2]
  have q: "reqs = calls s1"
    using c1 d by simp
  have "sent s2 = [report_23 1 0, report_23 1 1, report_23 1 1, report_23 1 1]"
    using rs2 run2 by simp
  then have p: "reps = [report_23 1 1, report_23 1 1]"
    using r2 rs by simp
  show ?thesis
    using run run2 run3 cs c2 c3 rs r2 r3 d1 d2 d3 h2 h3 ev
    unfolding q p d
    by (intro exI [of _ s1] exI [of _ s2] exI [of _ s3] conjI) simp_all
qed

subsection \<open>Multiplier discovery\<close>

lemma fetch_fields_fold:
  "fetch_fields rep flds s = foldl fetch_step s (map (Pair rep) flds)"
  by (induction flds arbitrary: s) (simp_all add: fetch_step_def)

lemma fetch_reports_fold:
  "fetch_reports reps s =
     foldl fetch_step s (concat (map (\<lambda>rep. map (Pair rep) (field rep)) reps))"
  by (induction reps arbitrary: s) (simp_all add: fetch_fields_fold)

lemma fetch_fold:
  "hid_generic_fetch_resolution_multiplier s =
     foldl fetch_step s (feature_fields (the_hdev s))"
  by (simp add: hid_generic_fetch_resolution_multiplier_def fetch_reports_fold
      feature_fields_def)

lemma handle_hdev [simp]:
  "the_hdev (handle_resolution_multiplier s rep fld usg) = the_hdev s"
  by (simp add: handle_resolution_multiplier_def Let_def)

lemma fetch_step_hdev [simp]: "the_hdev (fetch_step s x) = the_hdev s"
  by (cases x) (simp add: fetch_step_def)

lemma foldl_fetch_hdev [simp]: "the_hdev (foldl fetch_step s xs) = the_hdev s"
  by (induction xs arbitrary: s) simp_all

lemma fetch_step_skip:
  "\<not> qualifying (the_hdev s) (snd x) \<Longrightarrow> fetch_step s x = s"
  by (cases x) (auto simp: fetch_step_def qualifying_def handle_resolution_multiplier_def)

lemma foldl_fetch_filter:
  "foldl fetch_step s xs =
     foldl fetch_step s (filter (\<lambda>(rep, fld). qualifying (the_hdev s) fld) xs)"
proof (induction xs arbitrary: s)
  case Nil
  then show ?case by simp
next
  case (Cons x xs)
  obtain rep fld where x: "x = (rep, fld)" by (cases x)
  show ?case
  proof (cases "qualifying (the_hdev s) fld")
    case True
    then show ?thesis using Cons.IH [of "fetch_step s x"] x by simp
  next
    case False
    then have "fetch_step s x = s" using fetch_step_skip [of s x] x by simp
    then show ?thesis using Cons.IH [of s] False x by simp
  qed
qed

lemma foldl_fetch_invariant:
  assumes "P s"
    and "\<And>t x. x \<in> set xs \<Longrightarrow> the_hdev t = the_hdev s \<Longrightarrow> P t \<Longrightarrow> P (fetch_step t x)"
  shows "P (foldl fetch_step s xs)"
  using assms
proof (induction xs arbitrary: s)
  case Nil
  then show ?case by simp
next
  case (Cons x xs)
  have "P (fetch_step s x)" using Cons.prems by simp
  moreover have "\<And>t y. y \<in> set xs \<Longrightarrow> the_hdev t = the_hdev (fetch_step s x) \<Longrightarrow> P t \<Longrightarrow>
      P (fetch_step t y)"
    using Cons.prems(2) by simp
  ultimately show ?case using Cons.IH [of "fetch_step s x"] by simp
qed

lemmas handle_unfold =
  fetch_step_def handle_resolution_multiplier_def Let_def qualifying_def
  occupied_def occupied_slots_def nth2_def upd2_def

lemma step_count:
  "qualifying (the_hdev s) fld \<Longrightarrow> id_r rep \<noteq> - 1 \<Longrightarrow>
   length (occupied_slots (drvdata (fetch_step s (rep, fld)))) =
     min 2 (Suc (length (occupied_slots (drvdata s))))"
  by (auto simp: handle_unfold)

lemma step_overflow:
  "qualifying (the_hdev s) fld \<Longrightarrow> length (occupied_slots (drvdata s)) = 2 \<Longrightarrow>
   multipliers_default (drvdata (fetch_step s (rep, fld)))"
  by (auto simp: handle_unfold multipliers_default_def split: if_splits)

lemma step_prefix:
  "slots_prefix (drvdata s) \<Longrightarrow> slots_prefix (drvdata (fetch_step s x))"
  by (cases x) (auto simp: handle_unfold slots_prefix_def)

lemma handle_prefix:
  "slots_prefix (drvdata s) \<Longrightarrow>
   slots_prefix (drvdata (handle_resolution_multiplier s rep fld usg))"
  by (auto simp: handle_unfold slots_prefix_def)

lemma step_requests:
  "hw_requests (calls (fetch_step s x)) = hw_requests (calls s)"
  by (cases x) (auto simp: handle_unfold hw_requests_def)

lemma step_default_occupied:
  "id_r (fst x) \<noteq> - 1 \<Longrightarrow>
   (\<not> multipliers_default (drvdata s) \<longrightarrow> occupied (drvdata s) 0) \<Longrightarrow>
   (\<not> multipliers_default (drvdata (fetch_step s x)) \<longrightarrow>
      occupied (drvdata (fetch_step s x)) 0)"
  by (cases x) (auto simp: handle_unfold multipliers_default_def)

lemma fold_qualifying_count:
  "\<forall>x \<in> set qs. qualifying (the_hdev s) (snd x) \<and> id_r (fst x) \<noteq> - 1 \<Longrightarrow>
   length (occupied_slots (drvdata (foldl fetch_step s qs))) =
     min 2 (length (occupied_slots (drvdata s)) + length qs)"
proof (induction qs arbitrary: s)
  case Nil
  then show ?case by (simp add: occupied_slots_def)
next
  case (Cons x qs)
  obtain rep fld where x: "x = (rep, fld)" by (cases x)
  have "length (occupied_slots (drvdata (fetch_step s x))) =
          min 2 (Suc (length (occupied_slots (drvdata s))))"
    using Cons.prems x by (simp add: step_count)
  moreover have "\<forall>y \<in> set qs. qualifying (the_hdev (fetch_step s x)) (snd y) \<and> id_r (fst y) \<noteq> - 1"
    using Cons.prems by simp
  ultimately show ?case
    using Cons.IH [of "fetch_step s x"] by simp
qed

lemma fold_overflow:
  "\<forall>x \<in> set qs. qualifying (the_hdev s) (snd x) \<and> id_r (fst x) \<noteq> - 1 \<Longrightarrow>
   qs \<noteq> [] \<Longrightarrow> length (occupied_slots (drvdata s)) = 2 \<Longrightarrow>
   multipliers_default (drvdata (foldl fetch_step s qs))"
proof (induction qs arbitrary: s)
  case Nil
  then show ?case by simp
next
  case (Cons x qs)
  obtain rep fld where x: "x = (rep, fld)" by (cases x)
  have q: "qualifying (the_hdev s) fld" "id_r rep \<noteq> - 1"
    using Cons.prems(1) x by simp_all
  have d: "multipliers_default (drvdata (fetch_step s x))"
    using q Cons.prems(3) x by (simp add: step_overflow)
  have n: "length (occupied_slots (drvdata (fetch_step s x))) = 2"
    using q Cons.prems(3) x by (simp add: step_count)
  show ?case
  proof (cases "qs = []")
    case True
    then show ?thesis using d by simp
  next
    case False
    have "\<forall>y \<in> set qs. qualifying (the_hdev (fetch_step s x)) (snd y) \<and> id_r (fst y) \<noteq> - 1"
      using Cons.prems(1) by simp
    from Cons.IH [OF this False n] show ?thesis by simp
  qed
qed

lemma fold_three_qualifying:
  assumes q: "\<forall>x \<in> set qs. qualifying (the_hdev s) (snd x) \<and> id_r (fst x) \<noteq> - 1"
    and len: "3 \<le> length qs"
  shows "multipliers_default (drvdata (foldl fetch_step s qs))"
proof -
  let ?t = "foldl fetch_step s (take 2 qs)"
  have split: "foldl fetch_step s qs = foldl fetch_step ?t (drop 2 qs)"
    by (metis append_take_drop_id foldl_append)
  have q1: "\<forall>x \<in> set (take 2 qs). qualifying (the_hdev s) (snd x) \<and> id_r (fst x) \<noteq> - 1"
    using q by (meson in_set_takeD)
  have q2: "\<forall>x \<in> set (drop 2 qs). qualifying (the_hdev ?t) (snd x) \<and> id_r (fst x) \<noteq> - 1"
    using q by (simp, meson in_set_dropD)
  have "length (occupied_slots (drvdata ?t)) =
          min 2 (length (occupied_slots (drvdata s)) + length (take 2 qs))"
    using q1 by (rule fold_qualifying_count)
  then have n: "length (occupied_slots (drvdata ?t)) = 2"
    using len by simp
  have "drop 2 qs \<noteq> []" using len by simp
  from fold_overflow [OF q2 this n] show ?thesis by (simp only: split)
qed

lemma feature_fields_quirks [simp]:
  "feature_fields (dev\<lparr>quirks := q\<rparr>) = feature_fields dev"
  by (simp add: feature_fields_def)

lemma qualifying_quirks [simp]:
  "qualifying (dev\<lparr>quirks := q\<rparr>) fld = qualifying dev fld"
  by (simp add: qualifying_def usage_in_collection_def)

lemma qualifying_fields_quirks [simp]:
  "qualifying_fields (dev\<lparr>quirks := q\<rparr>) = qualifying_fields dev"
  by (simp add: qualifying_fields_def)

lemma fetch_qualifying:
  "hid_generic_fetch_resolution_multiplier s =
     foldl fetch_step s (qualifying_fields (the_hdev s))"
  unfolding fetch_fold qualifying_fields_def by (rule foldl_fetch_filter)

lemma qualifying_fields_set:
  "x \<in> set (qualifying_fields dev) \<Longrightarrow>
   qualifying dev (snd x) \<and>
   fst x \<in> set (report_list (report_enum dev HID_FEATURE_REPORT)) \<and>
   snd x \<in> set (field (fst x))"
  by (auto simp: qualifying_fields_def feature_fields_def)

lemma id_in_range_not_empty:
  "unat (k :: u32) < HID_MAX_IDS \<Longrightarrow> k \<noteq> - 1"
  by (auto simp: HID_MAX_IDS_def unsigned_minus_1_eq_mask mask_eq_exp_minus_1)

lemma fetch_requests:
  "hw_requests (calls (hid_generic_fetch_resolution_multiplier s)) = hw_requests (calls s)"
  unfolding fetch_fold
  by (rule foldl_fetch_invariant [where P = "\<lambda>t. hw_requests (calls t) = hw_requests (calls s)"])
    (simp_all add: step_requests)

lemma fetch_three_qualifying:
  assumes len: "3 \<le> length (qualifying_fields (the_hdev s))"
    and ids: "\<forall>rep \<in> set (report_list (report_enum (the_hdev s) HID_FEATURE_REPORT)).
                unat (id_r rep) < HID_MAX_IDS"
  shows "multipliers_default (drvdata (hid_generic_fetch_resolution_multiplier s))"
proof -
  have "\<forall>x \<in> set (qualifying_fields (the_hdev s)).
          qualifying (the_hdev s) (snd x) \<and> id_r (fst x) \<noteq> - 1"
    using ids qualifying_fields_set id_in_range_not_empty by blast
  from fold_three_qualifying [OF this len] show ?thesis
    by (simp only: fetch_qualifying)
qed

lemma report_index_distinct:
  "distinct (map id_r reps) \<Longrightarrow> rep \<in> set reps \<Longrightarrow>
   \<exists>p. report_index reps (id_r rep) = Some p \<and> reps ! p = rep"
  by (induction reps) auto

lemma wf_report_field:
  assumes "wf_report rep" and "fld \<in> set (field rep)"
  shows "unat (index_f fld) < length (field rep) \<and>
         field rep ! unat (index_f fld) = fld \<and>
         value_index fld < length (value_f fld)"
proof -
  from assms(2) obtain k where k: "k < length (field rep)" "field rep ! k = fld"
    by (auto simp: in_set_conv_nth)
  then have "(k, fld) \<in> set (enumerate 0 (field rep))"
    by (simp add: in_set_enumerate_eq)
  with assms(1) have "unat (index_f fld) = k \<and> value_index fld < length (value_f fld)"
    by (auto simp: wf_report_def list_all_iff)
  with k show ?thesis by simp
qed

lemma slot_from_valid:
  assumes wf: "wf_reports (feature_reports s)"
    and src: "slot_from (the_hdev s) (drvdata s) i"
  shows "slot_valid s i"
proof -
  from src obtain rep fld where
    x: "(rep, fld) \<in> set (feature_fields (the_hdev s))"
    and rid: "nth2 (report_id (drvdata s)) i = id_r rep"
    and fidx: "nth2 (field_index (drvdata s)) i = index_f fld"
    by (auto simp: slot_from_def)
  have rep: "rep \<in> set (feature_reports s)" and fld: "fld \<in> set (field rep)"
    using x by (auto simp: feature_fields_def feature_reports_def)
  have wr: "wf_report rep"
    using wf rep by (simp add: wf_reports_def list_all_iff)
  obtain p where p: "report_index (feature_reports s) (id_r rep) = Some p"
    "feature_reports s ! p = rep"
    using wf rep report_index_distinct by (auto simp: wf_reports_def)
  have f: "unat (index_f fld) < length (field rep)"
    "field rep ! unat (index_f fld) = fld"
    "value_index fld < length (value_f fld)"
    using wf_report_field [OF wr fld] by simp_all
  have "slot_target s i = Some (p, unat (index_f fld))"
    using wr p f by (simp add: slot_target_alt rid fidx wf_report_def maxfield_def)
  then show ?thesis
    using p f by (simp add: slot_valid_def slot_field_def)
qed

lemma step_slot_from:
  assumes "x \<in> set (feature_fields (the_hdev s))"
    and "\<forall>i \<in> set (occupied_slots (drvdata s)). slot_from (the_hdev s) (drvdata s) i"
  shows "\<forall>i \<in> set (occupied_slots (drvdata (fetch_step s x))).
           slot_from (the_hdev s) (drvdata (fetch_step s x)) i"
proof -
  obtain rep fld where x: "x = (rep, fld)" by (cases x)
  have new: "\<exists>y \<in> set (feature_fields (the_hdev s)). id_r rep = id_r (fst y) \<and> index_f fld = index_f (snd y)"
    using assms(1) x by force
  show ?thesis
    using assms(2) new unfolding x slot_from_def
    by (auto simp: handle_unfold split: if_splits)
qed

lemma slot_valid_calls [simp]:
  "slot_valid (s\<lparr>calls := cs\<rparr>) i = slot_valid s i"
  "slot_valid (s\<lparr>sent := rs\<rparr>) i = slot_valid s i"
  by (simp_all add: slot_valid_def slot_field_def feature_reports_def cong: option.case_cong)

lemma probe_eq:
  "hid_generic_probe dev p True 0 start_ret =
     (case hid_generic_set_resolution_multiplier
             ((discovery dev p)\<lparr>calls := calls (discovery dev p) @
                                   [Hid_hw_start HID_CONNECT_DEFAULT]\<rparr>) of
        None \<Rightarrow> None
      | Some s3 \<Rightarrow> Some (start_ret, the_hdev s3, Some (drvdata s3), calls s3))"
  by (simp add: hid_generic_probe_def discovery_def Let_def)

lemma discovery_fold:
  "discovery dev p =
     foldl fetch_step
       \<lparr>the_hdev = dev\<lparr>quirks := quirks dev OR HID_QUIRK_INPUT_PER_APP\<rparr>,
        drvdata = probe_context p, calls = [Hid_parse], sent = []\<rparr>
       (feature_fields dev)"
  by (simp add: discovery_def fetch_fold)

lemma discovery_hdev [simp]:
  "the_hdev (discovery dev p) = dev\<lparr>quirks := quirks dev OR HID_QUIRK_INPUT_PER_APP\<rparr>"
  by (simp add: discovery_fold)

lemma discovery_feature_reports [simp]:
  "feature_reports (discovery dev p) = report_list (report_enum dev HID_FEATURE_REPORT)"
  by (simp add: feature_reports_def)

lemma discovery_requests: "hw_requests (calls (discovery dev p)) = []"
  unfolding discovery_def fetch_requests by (simp add: hw_requests_def)

lemma discovery_prefix: "slots_prefix (drvdata (discovery dev p))"
  unfolding discovery_fold
proof (rule foldl_fetch_invariant [where P = "\<lambda>t. slots_prefix (drvdata t)"])
  show "slots_prefix (drvdata \<lparr>the_hdev = dev\<lparr>quirks := quirks dev OR HID_QUIRK_INPUT_PER_APP\<rparr>,
        drvdata = probe_context p, calls = [Hid_parse], sent = []\<rparr>)"
    by (simp add: slots_prefix_def occupied_def probe_context_def nth2_def)
next
  fix t :: hid_state and x
  assume "slots_prefix (drvdata t)"
  then show "slots_prefix (drvdata (fetch_step t x))"
    by (rule step_prefix)
qed

lemma feature_fields_ids:
  "x \<in> set (feature_fields dev) \<Longrightarrow>
   fst x \<in> set (report_list (report_enum dev HID_FEATURE_REPORT))"
  by (auto simp: feature_fields_def)

lemma wf_reports_id:
  "wf_reports reps \<Longrightarrow> rep \<in> set reps \<Longrightarrow> id_r rep \<noteq> - 1"
  by (auto simp: wf_reports_def wf_report_def list_all_iff dest: id_in_range_not_empty)

lemma discovery_slots:
  "\<forall>i \<in> set (occupied_slots (drvdata (discovery dev p))).
     slot_from (the_hdev (discovery dev p)) (drvdata (discovery dev p)) i"
proof -
  let ?s0 = "\<lparr>the_hdev = dev\<lparr>quirks := quirks dev OR HID_QUIRK_INPUT_PER_APP\<rparr>,
        drvdata = probe_context p, calls = [Hid_parse], sent = []\<rparr>"
  have "\<forall>i \<in> set (occupied_slots (drvdata (foldl fetch_step ?s0 (feature_fields dev)))).
          slot_from (the_hdev ?s0) (drvdata (foldl fetch_step ?s0 (feature_fields dev))) i"
  proof (rule foldl_fetch_invariant
      [where P = "\<lambda>t. \<forall>i \<in> set (occupied_slots (drvdata t)). slot_from (the_hdev ?s0) (drvdata t) i"])
    show "\<forall>i \<in> set (occupied_slots (drvdata ?s0)). slot_from (the_hdev ?s0) (drvdata ?s0) i"
      by (simp add: occupied_slots_def occupied_def probe_context_def nth2_def)
  next
    fix t :: hid_state and x
    assume x: "x \<in> set (feature_fields dev)" and h: "the_hdev t = the_hdev ?s0"
      and inv: "\<forall>i \<in> set (occupied_slots (drvdata t)). slot_from (the_hdev ?s0) (drvdata t) i"
    have "x \<in> set (feature_fields (the_hdev t))" using x h by simp
    moreover have "\<forall>i \<in> set (occupied_slots (drvdata t)). slot_from (the_hdev t) (drvdata t) i"
      using inv h by simp
    ultimately have "\<forall>i \<in> set (occupied_slots (drvdata (fetch_step t x))).
           slot_from (the_hdev t) (drvdata (fetch_step t x)) i"
      by (rule step_slot_from)
    then show "\<forall>i \<in> set (occupied_slots (drvdata (fetch_step t x))).
           slot_from (the_hdev ?s0) (drvdata (fetch_step t x)) i"
      using h by simp
  qed
  then show ?thesis by (simp add: discovery_fold)
qed

lemma discovery_valid:
  assumes "wf_reports (report_list (report_enum dev HID_FEATURE_REPORT))"
  shows "\<forall>i \<in> set (occupied_slots (drvdata (discovery dev p))). slot_valid (discovery dev p) i"
  using assms discovery_slots [of dev p] slot_from_valid [of "discovery dev p"]
  by simp

lemma discovery_found:
  assumes wf: "wf_reports (report_list (report_enum dev HID_FEATURE_REPORT))"
  shows "\<not> multipliers_default (drvdata (discovery dev p)) \<longrightarrow>
         occupied (drvdata (discovery dev p)) 0"
  unfolding discovery_fold
proof (rule foldl_fetch_invariant
    [where P = "\<lambda>t. \<not> multipliers_default (drvdata t) \<longrightarrow> occupied (drvdata t) 0"])
  show "\<not> multipliers_default (drvdata \<lparr>the_hdev = dev\<lparr>quirks := quirks dev OR HID_QUIRK_INPUT_PER_APP\<rparr>,
        drvdata = probe_context p, calls = [Hid_parse], sent = []\<rparr>) \<longrightarrow>
      occupied (drvdata \<lparr>the_hdev = dev\<lparr>quirks := quirks dev OR HID_QUIRK_INPUT_PER_APP\<rparr>,
        drvdata = probe_context p, calls = [Hid_parse], sent = []\<rparr>) 0"
    by (simp add: multipliers_default_def probe_context_def)
next
  fix t :: hid_state and x
  assume x: "x \<in> set (feature_fields dev)"
    and inv: "\<not> multipliers_default (drvdata t) \<longrightarrow> occupied (drvdata t) 0"
  have "id_r (fst x) \<noteq> - 1"
    using wf x feature_fields_ids wf_reports_id by blast
  then show "\<not> multipliers_default (drvdata (fetch_step t x)) \<longrightarrow>
      occupied (drvdata (fetch_step t x)) 0"
    using inv by (rule step_default_occupied)
qed

text \<open>
  A device whose feature reports hold three or more resolution multipliers that qualify
  by the scan of the driver, with report ids in their range: at the end of the
  discovery both multipliers are 1, an activation returns at once and changes nothing,
  and the attach returns what the start of the device returned, with no configuration
  write request among its calls.
\<close>

lemma three_qualifying_fallback:
  assumes three: "3 \<le> length (qualifying_fields dev)"
    and ids: "\<forall>rep \<in> set (report_list (report_enum dev HID_FEATURE_REPORT)).
                unat (id_r rep) < HID_MAX_IDS"
  shows "wheel_multiplier (drvdata (discovery dev p)) = 1 \<and>
         hwheel_multiplier (drvdata (discovery dev p)) = 1 \<and>
         hid_generic_set_resolution_multiplier (discovery dev p) = Some (discovery dev p) \<and>
         hid_generic_probe dev p True 0 start_ret =
           Some (start_ret, the_hdev (discovery dev p), Some (drvdata (discovery dev p)),
                 calls (discovery dev p) @ [Hid_hw_start HID_CONNECT_DEFAULT]) \<and>
         hw_requests (calls (discovery dev p) @ [Hid_hw_start HID_CONNECT_DEFAULT]) = []"
proof -
  let ?s0 = "\<lparr>the_hdev = dev\<lparr>quirks := quirks dev OR HID_QUIRK_INPUT_PER_APP\<rparr>,
        drvdata = probe_context p, calls = [Hid_parse], sent = []\<rparr>"
  have "multipliers_default (drvdata (hid_generic_fetch_resolution_multiplier ?s0))"
    by (rule fetch_three_qualifying) (simp_all add: three ids)
  then have d: "wheel_multiplier (drvdata (discovery dev p)) = 1 \<and>
         hwheel_multiplier (drvdata (discovery dev p)) = 1"
    by (simp add: discovery_def multipliers_default_def)
  have r: "hw_requests (calls (discovery dev p) @ [Hid_hw_start HID_CONNECT_DEFAULT]) = []"
    using discovery_requests [of dev p] by (simp add: hw_requests_def)
  show ?thesis
    using d r by (simp add: probe_eq set_multiplier_idle)
qed

text \<open>
  The mouse with the third multiplier in the collection of a wheel that has a field of
  its own.
\<close>

lemma three_qualifying_fallback_faulty:
  "length (qualifying_fields faulty_mouse) = 3 \<and>
   wheel_multiplier (drvdata (discovery faulty_mouse 7)) = 1 \<and>
   hwheel_multiplier (drvdata (discovery faulty_mouse 7)) = 1 \<and>
   hid_generic_set_resolution_multiplier (discovery faulty_mouse 7) =
     Some (discovery faulty_mouse 7) \<and>
   hid_generic_probe faulty_mouse 7 True 0 0 =
     Some (0, the_hdev (discovery faulty_mouse 7), Some (drvdata (discovery faulty_mouse 7)),
           calls (discovery faulty_mouse 7) @ [Hid_hw_start HID_CONNECT_DEFAULT]) \<and>
   hw_requests (calls (discovery faulty_mouse 7) @ [Hid_hw_start HID_CONNECT_DEFAULT]) = []"
proof -
  have three: "length (qualifying_fields faulty_mouse) = 3"
    by (simp add: qualifying_fields_def feature_fields_def qualifying_def
        usage_in_collection_def faulty_defs)
  have ids: "\<forall>rep \<in> set (report_list (report_enum faulty_mouse HID_FEATURE_REPORT)).
                unat (id_r rep) < HID_MAX_IDS"
    by (simp add: faulty_mouse_def HID_MAX_IDS_def)
  show ?thesis
    using three_qualifying_fallback [of faulty_mouse 7 0] three ids by simp
qed

text \<open>
  C3, as it is stated, fails on the mouse that reports X, Y and the wheel in one field.
  Four resolution multipliers of its feature report 23 share their collection with a wheel or a
  horizontal-wheel usage: three the collection of the wheel, one the collection of the
  horizontal wheel. The scan of the driver reads the first usage of a field only and
  does not find the wheel, so for the driver one field qualifies, the last. At the end
  of the discovery \<open>hwheel_multiplier\<close> is 4, not 1, and the attach issues a
  configuration write request for the report 23 after the start of the device.
\<close>

theorem three_multipliers_not_reset:
  "length (spec_qualifying_fields combined_mouse) = 4 \<and>
   length (qualifying_fields combined_mouse) = 1 \<and>
   wheel_multiplier (drvdata (discovery combined_mouse 7)) = 1 \<and>
   hwheel_multiplier (drvdata (discovery combined_mouse 7)) = 4 \<and>
   map_option fst (hid_generic_probe combined_mouse 7 True 0 0) = Some 0 \<and>
   map_option (snd \<circ> snd \<circ> snd) (hid_generic_probe combined_mouse 7 True 0 0) =
     Some [Hid_parse, Hid_hw_start HID_CONNECT_DEFAULT,
           Hid_hw_request HID_FEATURE_REPORT 23 HID_REQ_SET_REPORT]"
proof -
  have "length (spec_qualifying_fields combined_mouse) = 4"
    by (simp add: spec_qualifying_fields_def spec_qualifying_def feature_fields_def
        spec_usage_in_collection_def usages_def combined_defs)
  moreover have "length (qualifying_fields combined_mouse) = 1"
    by (simp add: qualifying_fields_def qualifying_def feature_fields_def
        usage_in_collection_def combined_defs)
  moreover have "wheel_multiplier (drvdata (discovery combined_mouse 7)) = 1 \<and>
      hwheel_multiplier (drvdata (discovery combined_mouse 7)) = 4"
    by (simp add: combined_context_discovered)
  moreover have "map_option fst (hid_generic_probe combined_mouse 7 True 0 0) = Some 0 \<and>
      map_option (snd \<circ> snd \<circ> snd) (hid_generic_probe combined_mouse 7 True 0 0) =
        Some [Hid_parse, Hid_hw_start HID_CONNECT_DEFAULT,
              Hid_hw_request HID_FEATURE_REPORT 23 HID_REQ_SET_REPORT]"
    by (simp add: hid_generic_probe_def hid_generic_fetch_resolution_multiplier_def
        handle_resolution_multiplier_def usage_in_collection_def probe_context_def
        hid_generic_set_resolution_multiplier_def set_slot_def report_id_hash_def
        HID_MAX_IDS_def maxfield_def Let_def nth2_def upd2_def combined_defs)
  ultimately show ?thesis
    by (intro conjI) simp_all
qed

text \<open>
  C10. The attach calls the activation after the start of the device, whatever the
  start returned. On a device with a well-formed feature report list for which the
  discovery found a multiplier greater than 1, the attach starts the device, then
  issues one configuration write request for each occupied slot, of which there is at
  least one, and only then returns the result of the start, an error as well as 0.
\<close>

theorem probe_activates_after_start:
  assumes wf: "wf_reports (report_list (report_enum dev HID_FEATURE_REPORT))"
    and found: "1 < wheel_multiplier (drvdata (discovery dev p)) \<or>
                1 < hwheel_multiplier (drvdata (discovery dev p))"
  shows "\<exists>dev'. hid_generic_probe dev p True 0 start_ret =
           Some (start_ret, dev', Some (drvdata (discovery dev p)),
                 calls (discovery dev p) @ Hid_hw_start HID_CONNECT_DEFAULT #
                 map (set_request (drvdata (discovery dev p)))
                   (occupied_slots (drvdata (discovery dev p)))) \<and>
         occupied_slots (drvdata (discovery dev p)) \<noteq> [] \<and>
         hw_requests (calls (discovery dev p)) = []"
proof -
  let ?s1 = "discovery dev p"
  let ?s2 = "?s1\<lparr>calls := calls ?s1 @ [Hid_hw_start HID_CONNECT_DEFAULT]\<rparr>"
  have active: "\<not> (wheel_multiplier (drvdata ?s2) = 1 \<and> hwheel_multiplier (drvdata ?s2) = 1)"
    using found by auto
  have prefix: "slots_prefix (drvdata ?s2)"
    using discovery_prefix [of dev p] by simp
  have valid: "\<forall>i \<in> set (occupied_slots (drvdata ?s2)). slot_valid ?s2 i"
    using discovery_valid [OF wf, of p] by simp
  have run: "hid_generic_set_resolution_multiplier ?s2 =
               Some (after_slots (occupied_slots (drvdata ?s2)) ?s2)"
    using prefix valid active by (rule set_multiplier_run)
  have "\<not> multipliers_default (drvdata ?s1)"
    using found by (auto simp: multipliers_default_def)
  then have "occupied (drvdata ?s1) 0"
    using discovery_found [OF wf, of p] by simp
  then have ne: "occupied_slots (drvdata ?s1) \<noteq> []"
    by (simp add: occupied_slots_def)
  show ?thesis
    using ne discovery_requests [of dev p]
    by (simp add: probe_eq run after_slots_calls)
qed

theorem probe_activates_after_start_witness:
  "wf_reports (report_list (report_enum hires_mouse HID_FEATURE_REPORT)) \<and>
   wheel_multiplier (drvdata (discovery hires_mouse 7)) = 8 \<and>
   calls (discovery hires_mouse 7) = [Hid_parse] \<and>
   (\<exists>dev'. hid_generic_probe hires_mouse 7 True 0 (- 5) =
      Some (- 5, dev', Some (hires_context\<lparr>hdev := 7, device := NULL\<rparr>),
            [Hid_parse, Hid_hw_start HID_CONNECT_DEFAULT,
             Hid_hw_request HID_FEATURE_REPORT 23 HID_REQ_SET_REPORT,
             Hid_hw_request HID_FEATURE_REPORT 23 HID_REQ_SET_REPORT]))"
proof -
  have ctx: "drvdata (discovery hires_mouse 7) = hires_context\<lparr>hdev := 7, device := NULL\<rparr>"
    by (rule hires_context_discovered)
  have cs: "calls (discovery hires_mouse 7) = [Hid_parse]"
    by (simp add: discovery_def hid_generic_fetch_resolution_multiplier_def
      handle_resolution_multiplier_def usage_in_collection_def probe_context_def
      Let_def nth2_def upd2_def hires_defs)
  have found: "1 < wheel_multiplier (drvdata (discovery hires_mouse 7)) \<or>
                1 < hwheel_multiplier (drvdata (discovery hires_mouse 7))"
    by (simp add: ctx hires_context_def)
  have slots: "occupied_slots (hires_context\<lparr>hdev := 7, device := NULL\<rparr>) = [0, 1]"
    by (simp add: occupied_slots_def occupied_def hires_context_def nth2_def)
  from probe_activates_after_start [OF hires_wf found, of "- 5"] obtain dev' where
    "hid_generic_probe hires_mouse 7 True 0 (- 5) =
           Some (- 5, dev', Some (drvdata (discovery hires_mouse 7)),
                 calls (discovery hires_mouse 7) @ Hid_hw_start HID_CONNECT_DEFAULT #
                 map (set_request (drvdata (discovery hires_mouse 7)))
                   (occupied_slots (drvdata (discovery hires_mouse 7))))"
    by blast
  then have "hid_generic_probe hires_mouse 7 True 0 (- 5) =
      Some (- 5, dev', Some (hires_context\<lparr>hdev := 7, device := NULL\<rparr>),
            [Hid_parse, Hid_hw_start HID_CONNECT_DEFAULT,
             Hid_hw_request HID_FEATURE_REPORT 23 HID_REQ_SET_REPORT,
             Hid_hw_request HID_FEATURE_REPORT 23 HID_REQ_SET_REPORT])"
    unfolding ctx cs slots by (simp add: set_request_def hires_context_def nth2_def)
  then show ?thesis
    using hires_wf cs by (auto simp: ctx hires_context_def)
qed

subsection \<open>The order of the slots\<close>

lemma fetch_step_reachable: "reachable s \<Longrightarrow> reachable (fetch_step s x)"
  by (cases x) (auto simp: fetch_step_def intro: reachable.discovered)

lemma foldl_fetch_reachable: "reachable s \<Longrightarrow> reachable (foldl fetch_step s xs)"
  by (induction xs arbitrary: s) (simp_all add: fetch_step_reachable)

lemma discovery_reachable: "reachable (discovery dev p)"
  unfolding discovery_fold by (rule foldl_fetch_reachable) (rule reachable.created)

lemma probe_reachable:
  assumes "hid_generic_probe dev p alloc_ok parse_ret start_ret = Some (ret, dev', Some ctx, cs)"
  shows "\<exists>rs. reachable \<lparr>the_hdev = dev', drvdata = ctx, calls = cs, sent = rs\<rparr>"
proof (cases "alloc_ok \<and> parse_ret = 0")
  case False
  then have "ctx = probe_context p"
    using assms by (auto simp: hid_generic_probe_def Let_def split: if_splits)
  then show ?thesis by (auto intro: reachable.created)
next
  case True
  let ?s2 = "(discovery dev p)\<lparr>calls := calls (discovery dev p) @
                                   [Hid_hw_start HID_CONNECT_DEFAULT]\<rparr>"
  from True assms obtain s3 where
    run: "hid_generic_set_resolution_multiplier ?s2 = Some s3"
    and s3: "dev' = the_hdev s3" "ctx = drvdata s3" "cs = calls s3"
    by (auto simp: probe_eq split: option.splits)
  have "reachable ?s2"
    by (rule reachable.started) (rule discovery_reachable)
  then have r3: "reachable s3"
    using run by (rule reachable.activated)
  have eq: "\<lparr>the_hdev = the_hdev s3, drvdata = drvdata s3, calls = calls s3,
              sent = sent s3\<rparr> = s3"
    by (cases s3) simp
  have "reachable \<lparr>the_hdev = dev', drvdata = ctx, calls = cs, sent = sent s3\<rparr>"
    unfolding s3 eq by (rule r3)
  then show ?thesis ..
qed

lemma set_multiplier_context:
  assumes "hid_generic_set_resolution_multiplier s = Some s'"
  shows "drvdata s' = drvdata s"
proof (cases "wheel_multiplier (drvdata s) = 1 \<and> hwheel_multiplier (drvdata s) = 1")
  case True
  then show ?thesis using assms by (simp add: set_multiplier_idle)
next
  case False
  have loop: "set_loop [0, 1] s = Some s'"
    using assms by (simp only: set_multiplier_active [OF False])
  have "s' = after_slots (takeWhile (occupied (drvdata s)) [0, 1]) s"
    using loop set_loop_valid [OF set_loop_Some [OF loop]] by (simp only: option.inject)
  then show ?thesis by simp
qed

lemma reachable_prefix: "reachable s \<Longrightarrow> slots_prefix (drvdata s)"
proof (induction rule: reachable.induct)
  case (created dev p cs)
  then show ?case
    by (simp add: slots_prefix_def occupied_def probe_context_def nth2_def)
next
  case (discovered s rep fld usg)
  then show ?case by (simp add: handle_prefix)
next
  case (started s m)
  then show ?case by simp
next
  case (activated s s')
  then show ?case by (simp add: set_multiplier_context)
next
  case (resumed s ret s')
  from resumed.hyps(2) have "hid_generic_set_resolution_multiplier s = Some s'"
    by (auto simp: hid_generic_reset_resume_def split: option.splits)
  then show ?case using resumed.IH by (simp add: set_multiplier_context)
next
  case (configured s hidinput)
  then show ?case
    by (simp add: hid_generic_input_configured_def Let_def slots_prefix_def occupied_def)
next
  case (translated s fld usg val)
  then show ?case
    by (simp add: hid_generic_event_def Let_def)
qed

text \<open>
  C9. In every reachable state slot 1 is occupied only if slot 0 is: the attach leaves
  both slots empty, a step of the discovery fills slot 0 when it is empty and slot 1
  otherwise, and no other operation writes a slot. So the slots that the loop of the
  activation visits before it stops are all the occupied slots, and the loop, where it
  returns, has issued one request for each of them.
\<close>

theorem slots_prefix_invariant:
  "(reachable s \<longrightarrow>
      slots_prefix (drvdata s) \<and>
      takeWhile (occupied (drvdata s)) [0, 1] = occupied_slots (drvdata s)) \<and>
   (reachable s \<and> set_loop [0, 1] s = Some s' \<longrightarrow>
      calls s' = calls s @ map (set_request (drvdata s)) (occupied_slots (drvdata s)))"
proof (intro conjI impI)
  assume "reachable s"
  then show "slots_prefix (drvdata s)" by (rule reachable_prefix)
  then show "takeWhile (occupied (drvdata s)) [0, 1] = occupied_slots (drvdata s)"
    by (rule takeWhile_prefix)
next
  assume a: "reachable s \<and> set_loop [0, 1] s = Some s'"
  then have tw: "takeWhile (occupied (drvdata s)) [0, 1] = occupied_slots (drvdata s)"
    using reachable_prefix takeWhile_prefix by blast
  have loop: "set_loop [0, 1] s = Some s'" using a by blast
  have "s' = after_slots (takeWhile (occupied (drvdata s)) [0, 1]) s"
    using loop set_loop_valid [OF set_loop_Some [OF loop]] by (simp only: option.inject)
  then show "calls s' = calls s @ map (set_request (drvdata s)) (occupied_slots (drvdata s))"
    unfolding tw by (simp add: after_slots_calls)
qed

theorem slots_prefix_invariant_witness:
  "reachable (discovery hires_mouse 7) \<and>
   slots_prefix (drvdata (discovery hires_mouse 7)) \<and>
   occupied_slots (drvdata (discovery hires_mouse 7)) = [0, 1] \<and>
   (\<exists>s'. set_loop [0, 1] (discovery hires_mouse 7) = Some s' \<and>
      calls s' = [Hid_parse,
                  Hid_hw_request HID_FEATURE_REPORT 23 HID_REQ_SET_REPORT,
                  Hid_hw_request HID_FEATURE_REPORT 23 HID_REQ_SET_REPORT])"
proof -
  let ?s = "discovery hires_mouse 7"
  have r: "reachable ?s" by (rule discovery_reachable)
  have ctx: "drvdata ?s = hires_context\<lparr>hdev := 7, device := NULL\<rparr>"
    by (rule hires_context_discovered)
  have cs: "calls ?s = [Hid_parse]"
    by (simp add: discovery_def hid_generic_fetch_resolution_multiplier_def
      handle_resolution_multiplier_def usage_in_collection_def probe_context_def
      Let_def nth2_def upd2_def hires_defs)
  have slots: "occupied_slots (drvdata ?s) = [0, 1]"
    by (simp add: ctx occupied_slots_def occupied_def hires_context_def nth2_def)
  have valid: "\<forall>i \<in> set (takeWhile (occupied (drvdata ?s)) [0, 1]). slot_valid ?s i"
    using discovery_valid [OF hires_wf, of 7] slots_prefix_invariant [of ?s] r by simp
  from set_loop_valid [OF valid] obtain s' where loop: "set_loop [0, 1] ?s = Some s'"
    by blast
  have "calls s' = calls ?s @ map (set_request (drvdata ?s)) (occupied_slots (drvdata ?s))"
    using slots_prefix_invariant [of ?s s'] r loop by blast
  then have "calls s' = [Hid_parse,
                  Hid_hw_request HID_FEATURE_REPORT 23 HID_REQ_SET_REPORT,
                  Hid_hw_request HID_FEATURE_REPORT 23 HID_REQ_SET_REPORT]"
    unfolding slots cs unfolding ctx by (simp add: set_request_def hires_context_def nth2_def)
  then show ?thesis
    using r slots loop slots_prefix_invariant [of ?s s'] by blast
qed

end
